theory Spec2Isabelle
  imports Main "HOL-Library.Sublist" "HOL-Library.Multiset"
begin

section \<open>JavaScript strings\<close>

text \<open>
  A JavaScript string is a sequence of UTF-16 code units. It is modelled as a list of
  natural numbers, one per code unit, so that \<open>length\<close>, \<open>slice\<close> and the
  regular-expression classes count what the program counts. \<open>js\<close> turns an ASCII
  literal into such a string.
\<close>

type_synonym jsstring = "nat list"

definition js :: "string \<Rightarrow> jsstring" where
  "js s = map of_char s"

section \<open>The credential cache (src/services/wechat.ts)\<close>

text \<open>
  \<^verbatim>\<open>let cachedAccessToken: { token: string; expireAt: number } | null = null;\<close>
  Times are milliseconds since the epoch, as \<open>Date.now()\<close> returns them.
\<close>

record credential =
  token :: jsstring
  expireAt :: int

text \<open>\<open>config.wechat\<close>: both fields are strings, empty when the variable is not set.\<close>

record wechat_config =
  appId :: jsstring
  secret :: jsstring

text \<open>The body of the token endpoint's answer; every field is optional.\<close>

record token_data =
  access_token :: "jsstring option"
  expires_in :: "int option"
  errcode :: "int option"
  errmsg :: "jsstring option"

text \<open>
  What \<open>await axios.get(TOKEN_URL, ...)\<close> does: the promise is rejected (network
  failure, status outside 2xx) or resolves with the body.
\<close>

datatype http_result = Rejected jsstring | Resolved token_data

datatype wechat_error =
    NotConfigured
  | AxiosError jsstring
  | ProviderMessage jsstring
  | ProviderFailure token_data

text \<open>
  \<open>getAccessToken\<close> has one suspension point, the \<open>await\<close> of the request.
  \<open>getAccessToken_sync\<close> is the code that runs before it (lines 18 to 24):
  it returns the cached token, throws, or issues the request.
\<close>

datatype sync_outcome = Cached jsstring | ConfigMissing | Request

definition fresh :: "credential option \<Rightarrow> int \<Rightarrow> bool" where
  "fresh cache now = (case cache of None \<Rightarrow> False | Some c \<Rightarrow> expireAt c > now + 60000)"

definition getAccessToken_sync :: "wechat_config \<Rightarrow> credential option \<Rightarrow> int \<Rightarrow> sync_outcome" where
  "getAccessToken_sync cfg cache now =
     (case cache of
        Some c \<Rightarrow>
          if expireAt c > now + 60000 then Cached (token c)
          else if appId cfg = [] \<or> secret cfg = [] then ConfigMissing
          else Request
      | None \<Rightarrow>
          if appId cfg = [] \<or> secret cfg = [] then ConfigMissing
          else Request)"

text \<open>
  \<open>getAccessToken_resume\<close> is the code that runs when the request has settled
  (lines 36 to 43), at time \<open>now\<close>. \<open>data.errcode\<close> is truthy when it is a
  number other than zero, \<open>data.access_token\<close> and \<open>data.errmsg\<close> when they are
  non-empty strings; \<open>data.expires_in ?? 7200\<close> defaults only an absent field.
\<close>

definition getAccessToken_resume ::
  "credential option \<Rightarrow> int \<Rightarrow> http_result \<Rightarrow> (wechat_error + jsstring) \<times> credential option" where
  "getAccessToken_resume cache now r =
     (case r of
        Rejected e \<Rightarrow> (Inl (AxiosError e), cache)
      | Resolved d \<Rightarrow>
          if (errcode d \<noteq> None \<and> errcode d \<noteq> Some 0)
             \<or> access_token d = None \<or> access_token d = Some []
          then (case errmsg d of
                  None \<Rightarrow> (Inl (ProviderFailure d), cache)
                | Some m \<Rightarrow> if m = [] then (Inl (ProviderFailure d), cache)
                            else (Inl (ProviderMessage m), cache))
          else (let c = \<lparr> token = the (access_token d),
                           expireAt = now + (case expires_in d of None \<Rightarrow> 7200 | Some n \<Rightarrow> n) * 1000 \<rparr>
                in (Inr (token c), Some c)))"

text \<open>
  One call with nothing else running in between: \<open>now\<close> is the clock at entry,
  \<open>r\<close> the way the request settles if one is made, \<open>now'\<close> the clock when it has.
  The result is what the caller gets, the cache afterwards, and the number of requests
  sent to the token endpoint.
\<close>

record call_result =
  outcome :: "wechat_error + jsstring"
  cache_after :: "credential option"
  requests_made :: nat

definition getAccessToken ::
  "wechat_config \<Rightarrow> credential option \<Rightarrow> int \<Rightarrow> http_result \<Rightarrow> int \<Rightarrow> call_result" where
  "getAccessToken cfg cache now r now' =
     (case getAccessToken_sync cfg cache now of
        Cached t \<Rightarrow> \<lparr> outcome = Inr t, cache_after = cache, requests_made = 0 \<rparr>
      | ConfigMissing \<Rightarrow> \<lparr> outcome = Inl NotConfigured, cache_after = cache, requests_made = 0 \<rparr>
      | Request \<Rightarrow>
          (let (res, cache') = getAccessToken_resume cache now' r
           in \<lparr> outcome = res, cache_after = cache', requests_made = 1 \<rparr>))"

subsection \<open>Concurrent callers\<close>

text \<open>
  Node runs the callers on one thread: a caller runs until its \<open>await\<close>, and resumes
  when its request settles. A schedule is a list of events: \<open>Call c now\<close> makes caller
  \<open>c\<close> enter \<open>getAccessToken\<close> at time \<open>now\<close>; \<open>Settle c now r\<close> settles the
  request of caller \<open>c\<close> with \<open>r\<close> at time \<open>now\<close>. The state is the module's
  variable, the callers that wait for their request, the number of requests sent so far,
  and what each caller that has finished got.
\<close>

datatype event = Call nat int | Settle nat int http_result

record world =
  cachedAccessToken :: "credential option"
  waiting :: "nat list"
  requests :: nat
  finished :: "(nat \<times> (wechat_error + jsstring)) list"

fun step :: "wechat_config \<Rightarrow> world \<Rightarrow> event \<Rightarrow> world" where
  "step cfg w (Call c now) =
     (case getAccessToken_sync cfg (cachedAccessToken w) now of
        Cached t \<Rightarrow> w\<lparr> finished := finished w @ [(c, Inr t)] \<rparr>
      | ConfigMissing \<Rightarrow> w\<lparr> finished := finished w @ [(c, Inl NotConfigured)] \<rparr>
      | Request \<Rightarrow> w\<lparr> waiting := waiting w @ [c], requests := Suc (requests w) \<rparr>)"
| "step cfg w (Settle c now r) =
     (if c \<in> set (waiting w) then
        (let (res, cache') = getAccessToken_resume (cachedAccessToken w) now r
         in w\<lparr> cachedAccessToken := cache',
               waiting := remove1 c (waiting w),
               finished := finished w @ [(c, res)] \<rparr>)
      else w)"

definition run :: "wechat_config \<Rightarrow> world \<Rightarrow> event list \<Rightarrow> world" where
  "run cfg w evs = foldl (step cfg) w evs"

definition start :: "credential option \<Rightarrow> world" where
  "start cache = \<lparr> cachedAccessToken = cache, waiting = [], requests = 0, finished = [] \<rparr>"

text \<open>
  The reasons for which a refresh fails: the application id or the secret is not
  configured, the request is rejected, the provider reports an error code, or the answer
  carries no access token (absent or empty).
\<close>

definition refresh_fails :: "wechat_config \<Rightarrow> http_result \<Rightarrow> bool" where
  "refresh_fails cfg r \<longleftrightarrow>
     appId cfg = [] \<or> secret cfg = [] \<or>
     (case r of
        Rejected e \<Rightarrow> True
      | Resolved d \<Rightarrow>
          (case errcode d of None \<Rightarrow> False | Some n \<Rightarrow> n \<noteq> 0)
          \<or> (case access_token d of None \<Rightarrow> True | Some t \<Rightarrow> t = []))"

section \<open>The completion client (src/routes/sync.ts, callDeepSeek)\<close>

text \<open>
  The code units that \<open>String.prototype.trim\<close> removes and that \<open>\s\<close> matches in
  a regular expression: ECMAScript's WhiteSpace and LineTerminator.
\<close>

definition is_space :: "nat \<Rightarrow> bool" where
  "is_space c \<longleftrightarrow>
     c \<in> {0x09, 0x0A, 0x0B, 0x0C, 0x0D, 0x20, 0xA0, 0x1680, 0x2028, 0x2029, 0x202F, 0x205F,
          0x3000, 0xFEFF}
     \<or> (0x2000 \<le> c \<and> c \<le> 0x200A)"

definition trim :: "jsstring \<Rightarrow> jsstring" where
  "trim s = rev (dropWhile is_space (rev (dropWhile is_space s)))"

text \<open>
  The body of the model's answer, as \<open>callDeepSeek\<close> types it:
  \<^verbatim>\<open>{ choices?: { message?: { content?: string } }[] }\<close>.
\<close>

record chat_message =
  content :: "jsstring option"

record chat_choice =
  message :: "chat_message option"

record completion_data =
  choices :: "chat_choice list option"

text \<open>
  \<open>await axios.post(...)\<close> is rejected (network failure, timeout, status outside 2xx)
  or resolves with the body.
\<close>

datatype completion_result = Failed jsstring | Completed completion_data

datatype deepseek_error = RequestError jsstring | EmptyContent

text \<open>\<open>data.choices?.[0]?.message?.content\<close>\<close>

definition first_content :: "completion_data \<Rightarrow> jsstring option" where
  "first_content d =
     (case choices d of
        None \<Rightarrow> None
      | Some cs \<Rightarrow>
          (case cs of
             [] \<Rightarrow> None
           | ch # _ \<Rightarrow> (case message ch of None \<Rightarrow> None | Some m \<Rightarrow> content m)))"

definition callDeepSeek :: "completion_result \<Rightarrow> deepseek_error + jsstring" where
  "callDeepSeek r =
     (case r of
        Failed e \<Rightarrow> Inl (RequestError e)
      | Completed d \<Rightarrow>
          (let content = (case first_content d of None \<Rightarrow> [] | Some s \<Rightarrow> trim s)
           in if content = [] then Inl EmptyContent else Inr content))"

section \<open>Goal decomposition (POST /api/goals/split)\<close>

text \<open>
  \<open>stepsText.split(/\r?\n/)\<close>: a line feed, with the carriage return before it if
  there is one, separates two lines; a carriage return alone does not.
\<close>

fun split_lines :: "jsstring \<Rightarrow> jsstring list" where
  "split_lines [] = [[]]"
| "split_lines [c] = (if c = 0x0A then [[], []] else [[c]])"
| "split_lines (c # d # cs) =
     (if c = 0x0D \<and> d = 0x0A then [] # split_lines cs
      else if c = 0x0A then [] # split_lines (d # cs)
      else (case split_lines (d # cs) of l # ls \<Rightarrow> (c # l) # ls | [] \<Rightarrow> [[c]]))"

text \<open>The class \<open>[\d\.\-\)\s]\<close>: a digit, a dot, a dash, a closing parenthesis, a space.\<close>

definition marker :: "nat \<Rightarrow> bool" where
  "marker c \<longleftrightarrow> (0x30 \<le> c \<and> c \<le> 0x39) \<or> c = 0x2E \<or> c = 0x2D \<or> c = 0x29 \<or> is_space c"

text \<open>
  \<^verbatim>\<open>stepsText.split(/\r?\n/).map((line) => line.trim()).filter((line) => !!line)
    .map((line) => line.replace(/^[\d\.\-\)\s]+/, ''))\<close>
  The replacement removes the longest run of the class at the start of the line.
\<close>

definition split_steps :: "jsstring \<Rightarrow> jsstring list" where
  "split_steps stepsText =
     map (dropWhile marker) (filter (\<lambda>line. line \<noteq> []) (map trim (split_lines stepsText)))"

section \<open>Diary generation (POST /api/analysis/diary): the entries\<close>

text \<open>
  \<^verbatim>\<open>entries?: Array<{ text: string; type: string; timestamp?: number }>\<close>
  A timestamp is a number of milliseconds, modelled as an integer. The fields \<open>text\<close>
  and \<open>type\<close> carry a prime, their names being reserved words of the theory language.
\<close>

record entry =
  text' :: jsstring
  type' :: jsstring
  timestamp :: "int option"

text \<open>\<open>a.timestamp || 0\<close>: an absent timestamp counts as zero.\<close>

definition timestamp_or_0 :: "entry \<Rightarrow> int" where
  "timestamp_or_0 e = (case timestamp e of None \<Rightarrow> 0 | Some t \<Rightarrow> t)"

text \<open>The comparator \<open>(a, b) => (a.timestamp || 0) - (b.timestamp || 0)\<close>.\<close>

definition compare_entries :: "entry \<Rightarrow> entry \<Rightarrow> int" where
  "compare_entries a b = timestamp_or_0 a - timestamp_or_0 b"

text \<open>
  \<open>Array.prototype.sort\<close> with a comparator. The standard leaves the algorithm
  open and fixes the result for a consistent comparator: the elements in ascending
  order, equal ones in their order in the input (the sort is stable since ECMAScript
  2019). Insertion from the right end computes that arrangement: an element goes before
  the first element it does not exceed.
\<close>

fun insert_by :: "('a \<Rightarrow> 'a \<Rightarrow> int) \<Rightarrow> 'a \<Rightarrow> 'a list \<Rightarrow> 'a list" where
  "insert_by cmp x [] = [x]"
| "insert_by cmp x (y # ys) = (if cmp x y \<le> 0 then x # y # ys else y # insert_by cmp x ys)"

definition array_sort :: "('a \<Rightarrow> 'a \<Rightarrow> int) \<Rightarrow> 'a list \<Rightarrow> 'a list" where
  "array_sort cmp xs = foldr (insert_by cmp) xs []"

text \<open>
  The objects that are serialised into the user content, in their order:
  \<^verbatim>\<open>.map((e, idx) => ({ index: idx + 1, text: e.text, type: e.type,
      time: e.timestamp ? new Date(e.timestamp).toLocaleTimeString(...) : null }))\<close>
  The formatting of a time depends on the locale and time zone of the process; it is a
  parameter.
\<close>

record item =
  index :: nat
  item_text :: jsstring
  item_type :: jsstring
  time :: "jsstring option"

definition diary_items :: "(int \<Rightarrow> jsstring) \<Rightarrow> entry list \<Rightarrow> item list" where
  "diary_items toLocaleTimeString entries =
     map (\<lambda>(idx, e).
            \<lparr> index = idx + 1, item_text = text' e, item_type = type' e,
              time = (case timestamp e of
                        None \<Rightarrow> None
                      | Some t \<Rightarrow> if t = 0 then None else Some (toLocaleTimeString t)) \<rparr>)
         (enumerate 0 (array_sort compare_entries entries))"

section \<open>JSON.parse\<close>

text \<open>
  The values that \<open>JSON.parse\<close> returns. An object is the list of its members as
  the text has them, in order, duplicates included; a later member overrides an earlier
  one of the same name when a property is read. \<open>JNumber neg m e\<close> is the number
  written with sign \<open>neg\<close>, decimal digits \<open>m\<close> and decimal exponent \<open>e\<close>, that
  is \<open>m * 10 ^ e\<close>, before it is rounded to a double.
\<close>

datatype json =
    JNull
  | JBool bool
  | JNumber bool nat int
  | JString jsstring
  | JArray "json list"
  | JObject "(jsstring \<times> json) list"

text \<open>
  The lexical grammar of JSON (ECMA-404), which \<open>JSON.parse\<close> follows: white space
  is space, tab, line feed and carriage return.
\<close>

definition is_digit :: "nat \<Rightarrow> bool" where
  "is_digit c \<longleftrightarrow> 0x30 \<le> c \<and> c \<le> 0x39"

definition json_ws :: "nat \<Rightarrow> bool" where
  "json_ws c \<longleftrightarrow> c = 0x20 \<or> c = 0x09 \<or> c = 0x0A \<or> c = 0x0D"

definition after_prefix :: "jsstring \<Rightarrow> jsstring \<Rightarrow> jsstring option" where
  "after_prefix p s = (if prefix p s then Some (drop (length p) s) else None)"

text \<open>
  A string literal after its opening quote: characters up to the closing quote, where a
  backslash introduces one of the escapes \<^verbatim>\<open>\" \\ \/ \b \f \n \r \t\<close> or \<^verbatim>\<open>\u\<close> and
  four hexadecimal digits, and a control character below \<open>0x20\<close> is an error.
  \<open>lex_string\<close> returns the string and the text after the closing quote.
\<close>

definition hex_value :: "nat \<Rightarrow> nat option" where
  "hex_value c =
     (if 0x30 \<le> c \<and> c \<le> 0x39 then Some (c - 0x30)
      else if 0x61 \<le> c \<and> c \<le> 0x66 then Some (c - 0x61 + 10)
      else if 0x41 \<le> c \<and> c \<le> 0x46 then Some (c - 0x41 + 10)
      else None)"

definition hex4 :: "nat \<Rightarrow> nat \<Rightarrow> nat \<Rightarrow> nat \<Rightarrow> nat option" where
  "hex4 a b c d =
     (case (hex_value a, hex_value b, hex_value c, hex_value d) of
        (Some x, Some y, Some z, Some w) \<Rightarrow> Some (((x * 16 + y) * 16 + z) * 16 + w)
      | _ \<Rightarrow> None)"

definition unescape :: "nat \<Rightarrow> nat option" where
  "unescape e =
     (if e = 0x22 then Some 0x22
      else if e = 0x5C then Some 0x5C
      else if e = 0x2F then Some 0x2F
      else if e = 0x62 then Some 0x08
      else if e = 0x66 then Some 0x0C
      else if e = 0x6E then Some 0x0A
      else if e = 0x72 then Some 0x0D
      else if e = 0x74 then Some 0x09
      else None)"

definition cons_char :: "nat \<Rightarrow> (jsstring \<times> jsstring) option \<Rightarrow> (jsstring \<times> jsstring) option" where
  "cons_char c r = (case r of None \<Rightarrow> None | Some (s, rest) \<Rightarrow> Some (c # s, rest))"

fun lex_string :: "jsstring \<Rightarrow> (jsstring \<times> jsstring) option" where
  "lex_string [] = None"
| "lex_string (c # cs) =
     (if c = 0x22 then Some ([], cs)
      else if c = 0x5C then
        (case cs of
           [] \<Rightarrow> None
         | e # r \<Rightarrow>
             if e = 0x75 then
               (case r of
                  h1 # h2 # h3 # h4 # r' \<Rightarrow>
                    (case hex4 h1 h2 h3 h4 of
                       None \<Rightarrow> None
                     | Some u \<Rightarrow> cons_char u (lex_string r'))
                | _ \<Rightarrow> None)
             else
               (case unescape e of
                  None \<Rightarrow> None
                | Some u \<Rightarrow> cons_char u (lex_string r)))
      else if c < 0x20 then None
      else cons_char c (lex_string cs))"

text \<open>
  A number: an optional minus, an integer part without leading zero, an optional
  fraction, an optional exponent.
\<close>

definition digits_value :: "jsstring \<Rightarrow> nat" where
  "digits_value ds = foldl (\<lambda>a c. 10 * a + (c - 0x30)) 0 ds"

definition lex_exponent :: "jsstring \<Rightarrow> int \<times> jsstring" where
  "lex_exponent s =
     (case s of
        [] \<Rightarrow> (0, s)
      | e # r \<Rightarrow>
          if e = 0x65 \<or> e = 0x45 then
            (case r of
               [] \<Rightarrow> (0, s)
             | g # r' \<Rightarrow>
                 if is_digit g then
                   (int (digits_value (takeWhile is_digit r)), dropWhile is_digit r)
                 else if g = 0x2B \<or> g = 0x2D then
                   (case r' of
                      [] \<Rightarrow> (0, s)
                    | d # _ \<Rightarrow>
                        if is_digit d then
                          ((if g = 0x2D then - 1 else 1) * int (digits_value (takeWhile is_digit r')),
                           dropWhile is_digit r')
                        else (0, s))
                 else (0, s))
          else (0, s))"

definition lex_fraction :: "jsstring \<Rightarrow> jsstring \<times> jsstring" where
  "lex_fraction s =
     (case s of
        p # d # r \<Rightarrow>
          if p = 0x2E \<and> is_digit d then (takeWhile is_digit (d # r), dropWhile is_digit (d # r))
          else ([], s)
      | _ \<Rightarrow> ([], s))"

definition lex_unsigned :: "bool \<Rightarrow> jsstring \<Rightarrow> (json \<times> jsstring) option" where
  "lex_unsigned neg s =
     (case s of
        [] \<Rightarrow> None
      | c # r \<Rightarrow>
          if \<not> is_digit c then None
          else
            (let (ip, s2) = (if c = 0x30 then ([c], r) else (takeWhile is_digit s, dropWhile is_digit s));
                 (fp, s3) = lex_fraction s2;
                 (ex, s4) = lex_exponent s3
             in Some (JNumber neg (digits_value (ip @ fp)) (ex - int (length fp)), s4)))"

definition lex_number :: "jsstring \<Rightarrow> (json \<times> jsstring) option" where
  "lex_number s =
     (case s of
        [] \<Rightarrow> None
      | c # r \<Rightarrow> if c = 0x2D then lex_unsigned True r else lex_unsigned False s)"

text \<open>
  The tokens of a JSON text: the six structural characters and the literal values.
\<close>

datatype jtoken =
    TLBrace | TRBrace | TLBracket | TRBracket | TColon | TComma
  | TValue json

definition cons_token :: "jtoken \<Rightarrow> jtoken list option \<Rightarrow> jtoken list option" where
  "cons_token t r = (case r of None \<Rightarrow> None | Some ts \<Rightarrow> Some (t # ts))"

text \<open>
  Every token consumes at least one character, which is why \<open>tokenize\<close> terminates.
\<close>

lemma lex_string_shorter: "lex_string s = Some (v, rest) \<Longrightarrow> length rest < length s"
proof (induction s arbitrary: v rest rule: lex_string.induct)
  case 1
  then show ?case by simp
next
  case (2 c cs)
  then show ?case
    by (auto simp: cons_char_def split: if_splits list.splits option.splits) fastforce+
qed

lemma lex_exponent_shorter: "length (snd (lex_exponent s)) \<le> length s"
  by (auto simp: lex_exponent_def split: list.splits intro: le_trans [OF length_dropWhile_le])

lemma lex_fraction_shorter: "length (snd (lex_fraction s)) \<le> length s"
  by (auto simp: lex_fraction_def split: list.splits intro: le_trans [OF length_dropWhile_le])

lemma lex_unsigned_shorter:
  assumes "lex_unsigned neg s = Some (v, rest)"
  shows "length rest < length s"
proof (cases s)
  case Nil
  with assms show ?thesis by (simp add: lex_unsigned_def)
next
  case (Cons c r)
  with assms have d: "is_digit c"
    by (auto simp: lex_unsigned_def split: if_splits)
  define s2 where "s2 = (if c = 0x30 then r else dropWhile is_digit s)"
  have "length s2 \<le> length r"
    using d by (simp add: s2_def Cons length_dropWhile_le)
  moreover have "rest = snd (lex_exponent (snd (lex_fraction s2)))"
    using assms d by (auto simp: lex_unsigned_def Cons s2_def split_def Let_def split: if_splits)
  ultimately show ?thesis
    using lex_exponent_shorter [of "snd (lex_fraction s2)"] lex_fraction_shorter [of s2]
    by (simp add: Cons)
qed

lemma lex_number_shorter: "lex_number s = Some (v, rest) \<Longrightarrow> length rest < length s"
  by (auto simp: lex_number_def split: list.splits if_splits dest: lex_unsigned_shorter)

lemma after_prefix_shorter: "after_prefix p s = Some rest \<Longrightarrow> length rest \<le> length s"
  by (auto simp: after_prefix_def split: if_splits)

function tokenize :: "jsstring \<Rightarrow> jtoken list option" where
  "tokenize [] = Some []"
| "tokenize (c # cs) =
     (if json_ws c then tokenize cs
      else if c = 0x7B then cons_token TLBrace (tokenize cs)
      else if c = 0x7D then cons_token TRBrace (tokenize cs)
      else if c = 0x5B then cons_token TLBracket (tokenize cs)
      else if c = 0x5D then cons_token TRBracket (tokenize cs)
      else if c = 0x3A then cons_token TColon (tokenize cs)
      else if c = 0x2C then cons_token TComma (tokenize cs)
      else if c = 0x22 then
        (case lex_string cs of
           None \<Rightarrow> None
         | Some (s, rest) \<Rightarrow> cons_token (TValue (JString s)) (tokenize rest))
      else if c = 0x2D \<or> is_digit c then
        (case lex_number (c # cs) of
           None \<Rightarrow> None
         | Some (n, rest) \<Rightarrow> cons_token (TValue n) (tokenize rest))
      else if c = 0x74 then
        (case after_prefix [0x72, 0x75, 0x65] cs of
           None \<Rightarrow> None
         | Some rest \<Rightarrow> cons_token (TValue (JBool True)) (tokenize rest))
      else if c = 0x66 then
        (case after_prefix [0x61, 0x6C, 0x73, 0x65] cs of
           None \<Rightarrow> None
         | Some rest \<Rightarrow> cons_token (TValue (JBool False)) (tokenize rest))
      else if c = 0x6E then
        (case after_prefix [0x75, 0x6C, 0x6C] cs of
           None \<Rightarrow> None
         | Some rest \<Rightarrow> cons_token (TValue JNull) (tokenize rest))
      else None)"
  by pat_completeness auto
termination
  by (relation "measure length")
     (auto dest: lex_string_shorter lex_number_shorter after_prefix_shorter)

text \<open>
  The grammar of JSON values over the tokens, as a pushdown automaton: the stack holds
  the arrays and objects that are open, innermost first, each with the elements or
  members read so far (latest first); the control state says what may come next. A text
  is accepted when its last token completes the outermost value.
\<close>

datatype frame =
    ArrayFrame "json list"
  | ObjectFrame "(jsstring \<times> json) list"
  | MemberFrame "(jsstring \<times> json) list" jsstring

datatype expect =
    ExpValue | ExpValueOrEnd | ExpKeyOrEnd | ExpKey | ExpColon | ExpCommaOrEnd | ExpEnd json

fun reduce :: "json \<Rightarrow> frame list \<Rightarrow> (expect \<times> frame list) option" where
  "reduce v [] = Some (ExpEnd v, [])"
| "reduce v (ArrayFrame es # fs) = Some (ExpCommaOrEnd, ArrayFrame (v # es) # fs)"
| "reduce v (MemberFrame ms k # fs) = Some (ExpCommaOrEnd, ObjectFrame ((k, v) # ms) # fs)"
| "reduce v (ObjectFrame ms # fs) = None"

fun close_array :: "frame list \<Rightarrow> (expect \<times> frame list) option" where
  "close_array (ArrayFrame es # fs) = reduce (JArray (rev es)) fs"
| "close_array fs = None"

fun close_object :: "frame list \<Rightarrow> (expect \<times> frame list) option" where
  "close_object (ObjectFrame ms # fs) = reduce (JObject (rev ms)) fs"
| "close_object fs = None"

fun begin_member :: "jsstring \<Rightarrow> frame list \<Rightarrow> (expect \<times> frame list) option" where
  "begin_member k (ObjectFrame ms # fs) = Some (ExpColon, MemberFrame ms k # fs)"
| "begin_member k fs = None"

fun begin_value :: "jtoken \<Rightarrow> frame list \<Rightarrow> (expect \<times> frame list) option" where
  "begin_value TLBracket fs = Some (ExpValueOrEnd, ArrayFrame [] # fs)"
| "begin_value TLBrace fs = Some (ExpKeyOrEnd, ObjectFrame [] # fs)"
| "begin_value (TValue v) fs = reduce v fs"
| "begin_value t fs = None"

fun pda_step :: "expect \<times> frame list \<Rightarrow> jtoken \<Rightarrow> (expect \<times> frame list) option" where
  "pda_step (ExpValue, fs) t = begin_value t fs"
| "pda_step (ExpValueOrEnd, fs) t = (if t = TRBracket then close_array fs else begin_value t fs)"
| "pda_step (ExpKeyOrEnd, fs) t =
     (case t of
        TRBrace \<Rightarrow> close_object fs
      | TValue (JString k) \<Rightarrow> begin_member k fs
      | _ \<Rightarrow> None)"
| "pda_step (ExpKey, fs) t = (case t of TValue (JString k) \<Rightarrow> begin_member k fs | _ \<Rightarrow> None)"
| "pda_step (ExpColon, fs) t = (if t = TColon then Some (ExpValue, fs) else None)"
| "pda_step (ExpCommaOrEnd, fs) t =
     (case t of
        TComma \<Rightarrow>
          (case fs of
             ArrayFrame es # _ \<Rightarrow> Some (ExpValue, fs)
           | ObjectFrame ms # _ \<Rightarrow> Some (ExpKey, fs)
           | _ \<Rightarrow> None)
      | TRBracket \<Rightarrow> close_array fs
      | TRBrace \<Rightarrow> close_object fs
      | _ \<Rightarrow> None)"
| "pda_step (ExpEnd v, fs) t = None"

fun pda_run :: "expect \<times> frame list \<Rightarrow> jtoken list \<Rightarrow> json option" where
  "pda_run st [] = (case st of (ExpEnd v, []) \<Rightarrow> Some v | _ \<Rightarrow> None)"
| "pda_run st (t # ts) = (case pda_step st t of None \<Rightarrow> None | Some st' \<Rightarrow> pda_run st' ts)"

text \<open>
  \<open>JSON.parse\<close>: the value, or \<open>None\<close> when it throws a \<open>SyntaxError\<close>.
\<close>

definition JSON_parse :: "jsstring \<Rightarrow> json option" where
  "JSON_parse s = (case tokenize s of None \<Rightarrow> None | Some ts \<Rightarrow> pda_run (ExpValue, []) ts)"

section \<open>Values and properties\<close>

text \<open>
  \<open>ToBoolean\<close> on a parsed value. A number is falsy when the double it rounds to is
  zero: when its digits are zero, or when it is so small that it rounds to zero, which
  is when it is at most \<open>2\<close> to the power \<open>- 1075\<close>, half the smallest positive
  double.
\<close>

fun truthy :: "json \<Rightarrow> bool" where
  "truthy JNull = False"
| "truthy (JBool b) = b"
| "truthy (JNumber neg m e) = (if 0 \<le> e then 0 < m else 10 ^ nat (- e) < m * 2 ^ 1075)"
| "truthy (JString s) = (s \<noteq> [])"
| "truthy (JArray vs) = True"
| "truthy (JObject ms) = True"

text \<open>
  \<open>obj.name\<close> on a parsed value other than \<open>null\<close>: \<open>None\<close> is \<open>undefined\<close>.
  Only an object has the properties that the routes read.
\<close>

definition get_prop :: "json \<Rightarrow> jsstring \<Rightarrow> json option" where
  "get_prop obj k = (case obj of JObject ms \<Rightarrow> map_of (rev ms) k | _ \<Rightarrow> None)"

section \<open>Structured-output extraction (src/routes/sync.ts)\<close>

text \<open>
  \<^verbatim>\<open>raw.match(/\{[\s\S]*\}/)\<close>, the text matched: it starts at the first opening brace;
  the greedy \<^verbatim>\<open>[\s\S]*\<close> runs to the end of the text and gives back characters up to
  the last closing brace. With no closing brace after the first opening brace there is
  no match.
\<close>

definition jsonMatch :: "jsstring \<Rightarrow> jsstring option" where
  "jsonMatch raw =
     (case dropWhile (\<lambda>c. c \<noteq> 0x7B) raw of
        [] \<Rightarrow> None
      | b # t \<Rightarrow>
          if 0x7D \<in> set t then Some (b # rev (dropWhile (\<lambda>c. c \<noteq> 0x7D) (rev t)))
          else None)"

text \<open>
  The three regular expressions of the \<open>catch\<close> block have the forms
  \<^verbatim>\<open>/(?:A|B)[;:]\s*([\s\S]*?)(?=C|D|$)/i\<close> and \<^verbatim>\<open>/(?:A|B|C)[;:]\s*([\s\S]*)/i\<close>,
  where the headings \<open>A\<close>, \<open>B\<close>, ... are Chinese words, given below by their
  code units, and \<open>;\<close> stands for the full-width colon U+FF1A. The flag \<open>i\<close>
  changes nothing: neither the headings nor the colons have case variants.
  \<open>heading_at\<close> tries the alternatives in order at one position and returns the text
  after the colon; \<open>lazy_until\<close> is the lazy group followed by the lookahead: the
  shortest text after which a stop word or the end of the input follows;
  \<open>header_match\<close> finds the leftmost position where a heading matches, skips the
  white space after the colon (\<^verbatim>\<open>\s*\<close> is greedy and what follows it cannot fail)
  and returns the captured group.
\<close>

definition colon :: "nat \<Rightarrow> bool" where
  "colon c \<longleftrightarrow> c = 0xFF1A \<or> c = 0x3A"

fun heading_at :: "jsstring list \<Rightarrow> jsstring \<Rightarrow> jsstring option" where
  "heading_at [] s = None"
| "heading_at (h # hs) s =
     (case after_prefix h s of
        Some (c # r) \<Rightarrow> if colon c then Some r else heading_at hs s
      | _ \<Rightarrow> heading_at hs s)"

fun lazy_until :: "jsstring list \<Rightarrow> jsstring \<Rightarrow> jsstring" where
  "lazy_until stops [] = []"
| "lazy_until stops (c # cs) =
     (if \<exists>p \<in> set stops. prefix p (c # cs) then [] else c # lazy_until stops cs)"

fun header_match :: "jsstring list \<Rightarrow> (jsstring \<Rightarrow> jsstring) \<Rightarrow> jsstring \<Rightarrow> jsstring option" where
  "header_match hs capture [] =
     (case heading_at hs [] of Some r \<Rightarrow> Some (capture (dropWhile is_space r)) | None \<Rightarrow> None)"
| "header_match hs capture (c # cs) =
     (case heading_at hs (c # cs) of
        Some r \<Rightarrow> Some (capture (dropWhile is_space r))
      | None \<Rightarrow> header_match hs capture cs)"

text \<open>
  The headings: \<open>h_diary_full\<close> "complete diary", \<open>h_diary\<close> "diary",
  \<open>h_points_full\<close> "key points", \<open>h_points\<close> "points", \<open>h_insight\<close> "insight",
  \<open>h_advice\<close> "advice", \<open>h_insight_advice\<close> "insight and advice".
  \<open>diaryMatch\<close> captures up to "key points", "points" or the end; \<open>pointsMatch\<close>
  up to "insight", "advice" or the end; \<open>insightsMatch\<close> to the end.
\<close>

definition h_diary_full :: jsstring where "h_diary_full = [0x5B8C, 0x6574, 0x65E5, 0x8BB0]"
definition h_diary :: jsstring where "h_diary = [0x65E5, 0x8BB0]"
definition h_points_full :: jsstring where "h_points_full = [0x5173, 0x952E, 0x8981, 0x70B9]"
definition h_points :: jsstring where "h_points = [0x8981, 0x70B9]"
definition h_insight :: jsstring where "h_insight = [0x6D1E, 0x5BDF]"
definition h_advice :: jsstring where "h_advice = [0x5EFA, 0x8BAE]"
definition h_insight_advice :: jsstring where "h_insight_advice = [0x6D1E, 0x5BDF, 0x4E0E, 0x5EFA, 0x8BAE]"

definition diaryMatch :: "jsstring \<Rightarrow> jsstring option" where
  "diaryMatch raw = header_match [h_diary_full, h_diary] (lazy_until [h_points_full, h_points]) raw"

definition pointsMatch :: "jsstring \<Rightarrow> jsstring option" where
  "pointsMatch raw = header_match [h_points_full, h_points] (lazy_until [h_insight, h_advice]) raw"

definition insightsMatch :: "jsstring \<Rightarrow> jsstring option" where
  "insightsMatch raw = header_match [h_insight, h_advice, h_insight_advice] (\<lambda>s. s) raw"

text \<open>
  POST /api/analysis/diary, after \<open>callDeepSeek\<close> has returned \<open>raw\<close>. The variable
  \<open>parsed\<close> starts as \<^verbatim>\<open>{ diary: raw, keyPoints: '', insights: '' }\<close>. A field holds
  whatever value the model's JSON gave it, so it is a JSON value.
\<close>

record diary_fields =
  diary :: json
  keyPoints :: json
  insights :: json

text \<open>
  The \<open>try\<close> block after the parse: \<^verbatim>\<open>if (obj.diary) parsed.diary = obj.diary;\<close> and
  the same for the two other fields.
\<close>

definition copy_fields :: "json \<Rightarrow> diary_fields \<Rightarrow> diary_fields" where
  "copy_fields obj parsed =
     (let p1 = (case get_prop obj (js ''diary'') of
                  None \<Rightarrow> parsed
                | Some v \<Rightarrow> if truthy v then parsed\<lparr> diary := v \<rparr> else parsed);
          p2 = (case get_prop obj (js ''keyPoints'') of
                  None \<Rightarrow> p1
                | Some v \<Rightarrow> if truthy v then p1\<lparr> keyPoints := v \<rparr> else p1)
      in (case get_prop obj (js ''insights'') of
            None \<Rightarrow> p2
          | Some v \<Rightarrow> if truthy v then p2\<lparr> insights := v \<rparr> else p2))"

text \<open>
  The \<open>catch\<close> block: each regular expression is matched against \<open>raw\<close>, and a
  captured group is trimmed and assigned.
\<close>

definition header_fields :: "jsstring \<Rightarrow> diary_fields \<Rightarrow> diary_fields" where
  "header_fields raw parsed =
     (let p1 = (case diaryMatch raw of None \<Rightarrow> parsed | Some g \<Rightarrow> parsed\<lparr> diary := JString (trim g) \<rparr>);
          p2 = (case pointsMatch raw of None \<Rightarrow> p1 | Some g \<Rightarrow> p1\<lparr> keyPoints := JString (trim g) \<rparr>)
      in (case insightsMatch raw of None \<Rightarrow> p2 | Some g \<Rightarrow> p2\<lparr> insights := JString (trim g) \<rparr>))"

text \<open>
  \<open>a || b\<close>
\<close>

definition or_else :: "json \<Rightarrow> json \<Rightarrow> json" where
  "or_else a b = (if truthy a then a else b)"

text \<open>
  The extraction of the diary route, from \<open>raw\<close> to the \<open>data\<close> of the response.
  The \<open>catch\<close> block runs when \<open>JSON.parse\<close> throws, or when reading a property
  of its result throws, which it does of \<open>null\<close> only.
\<close>

definition extract_diary :: "jsstring \<Rightarrow> diary_fields" where
  "extract_diary raw =
     (let parsed0 = \<lparr> diary = JString raw, keyPoints = JString [], insights = JString [] \<rparr>;
          parsed =
            (case jsonMatch raw of
               None \<Rightarrow> parsed0
             | Some m \<Rightarrow>
                 (case JSON_parse m of
                    None \<Rightarrow> header_fields raw parsed0
                  | Some obj \<Rightarrow>
                      if obj = JNull then header_fields raw parsed0
                      else copy_fields obj parsed0))
      in \<lparr> diary = or_else (diary parsed) (JString raw),
           keyPoints = or_else (keyPoints parsed) (JString []),
           insights = or_else (insights parsed) (JString []) \<rparr>)"

text \<open>
  POST /api/analysis/long-term: \<open>parsed\<close> starts as \<open>null\<close>, a failed parse is
  ignored, and a falsy \<open>parsed\<close> is replaced by the record built from \<open>raw\<close>.
\<close>

definition long_term_fallback :: "jsstring \<Rightarrow> json" where
  "long_term_fallback raw =
     JObject
       [(js ''summary'',
           JObject [(js ''timeRange'', JString [0x8FD1, 0x671F]),
                    (js ''keyPoints'', JArray [JString (take 200 raw)])]),
        (js ''psychologicalInsight'',
           JObject [(js ''letter'', JString raw), (js ''themes'', JArray [])]),
        (js ''lifeAdvice'', JObject [(js ''adviceBlocks'', JArray [])]),
        (js ''metrics'', JObject [])]"

definition extract_long_term :: "jsstring \<Rightarrow> json" where
  "extract_long_term raw =
     (let parsed = (case jsonMatch raw of None \<Rightarrow> None | Some m \<Rightarrow> JSON_parse m)
      in case parsed of
           None \<Rightarrow> long_term_fallback raw
         | Some v \<Rightarrow> if truthy v then v else long_term_fallback raw)"

section \<open>JSON.stringify\<close>

text \<open>
  \<open>JSON.stringify\<close> on a string (QuoteJSONString of ECMAScript): the quote, the
  backslash and the control characters with a short form are written with a backslash,
  the other control characters and the surrogates that are not part of a pair as
  \<^verbatim>\<open>\u\<close> and four lowercase hexadecimal digits, everything else as it is.
\<close>

definition hex_digit :: "nat \<Rightarrow> nat" where
  "hex_digit d = (if d < 10 then 0x30 + d else 0x61 + (d - 10))"

definition unicode_escape :: "nat \<Rightarrow> jsstring" where
  "unicode_escape c =
     [0x5C, 0x75, hex_digit (c div 4096 mod 16), hex_digit (c div 256 mod 16),
      hex_digit (c div 16 mod 16), hex_digit (c mod 16)]"

definition short_escape :: "nat \<Rightarrow> nat option" where
  "short_escape c =
     (if c = 0x08 then Some 0x62
      else if c = 0x09 then Some 0x74
      else if c = 0x0A then Some 0x6E
      else if c = 0x0C then Some 0x66
      else if c = 0x0D then Some 0x72
      else if c = 0x22 then Some 0x22
      else if c = 0x5C then Some 0x5C
      else None)"

definition lead_surrogate :: "nat \<Rightarrow> bool" where
  "lead_surrogate c \<longleftrightarrow> 0xD800 \<le> c \<and> c \<le> 0xDBFF"

definition trail_surrogate :: "nat \<Rightarrow> bool" where
  "trail_surrogate c \<longleftrightarrow> 0xDC00 \<le> c \<and> c \<le> 0xDFFF"

fun quote_chars :: "jsstring \<Rightarrow> jsstring" where
  "quote_chars [] = []"
| "quote_chars [c] =
     (case short_escape c of
        Some e \<Rightarrow> [0x5C, e]
      | None \<Rightarrow>
          if c < 0x20 \<or> lead_surrogate c \<or> trail_surrogate c then unicode_escape c else [c])"
| "quote_chars (c # d # cs) =
     (case short_escape c of
        Some e \<Rightarrow> [0x5C, e] @ quote_chars (d # cs)
      | None \<Rightarrow>
          if lead_surrogate c \<and> trail_surrogate d then c # d # quote_chars cs
          else if c < 0x20 \<or> lead_surrogate c \<or> trail_surrogate c
          then unicode_escape c @ quote_chars (d # cs)
          else c # quote_chars (d # cs))"

definition QuoteJSONString :: "jsstring \<Rightarrow> jsstring" where
  "QuoteJSONString s = [0x22] @ quote_chars s @ [0x22]"

text \<open>
  \<open>JSON.stringify\<close> of an object of the diary shape,
  \<^verbatim>\<open>{ diary: d, keyPoints: k, insights: i }\<close> with three strings.
\<close>

definition stringify_diary :: "jsstring \<Rightarrow> jsstring \<Rightarrow> jsstring \<Rightarrow> jsstring" where
  "stringify_diary d k i =
     [0x7B] @ QuoteJSONString (js ''diary'') @ [0x3A] @ QuoteJSONString d
     @ [0x2C] @ QuoteJSONString (js ''keyPoints'') @ [0x3A] @ QuoteJSONString k
     @ [0x2C] @ QuoteJSONString (js ''insights'') @ [0x3A] @ QuoteJSONString i @ [0x7D]"

section \<open>Properties of the credential cache\<close>

lemma sync_fresh:
  "fresh cache now \<Longrightarrow> getAccessToken_sync cfg cache now = Cached (token (the cache))"
  by (auto simp: fresh_def getAccessToken_sync_def split: option.splits)

lemma sync_stale:
  "\<not> fresh cache now \<Longrightarrow>
   getAccessToken_sync cfg cache now =
     (if appId cfg = [] \<or> secret cfg = [] then ConfigMissing else Request)"
  by (auto simp: fresh_def getAccessToken_sync_def split: option.splits)

lemma resume_failure_keeps_cache:
  "getAccessToken_resume cache now r = (Inl e, cache') \<Longrightarrow> cache' = cache"
  by (auto simp: getAccessToken_resume_def Let_def split: http_result.splits option.splits if_splits)

lemma resume_success:
  "getAccessToken_resume cache now r = (Inr t, cache') \<Longrightarrow>
   \<exists>d. r = Resolved d \<and> access_token d = Some t \<and> t \<noteq> [] \<and>
       cache' = Some \<lparr> token = t,
                        expireAt = now + (case expires_in d of None \<Rightarrow> 7200 | Some n \<Rightarrow> n) * 1000 \<rparr>"
  by (auto simp: getAccessToken_resume_def Let_def split: http_result.splits option.splits if_splits)

lemma resume_fails:
  "refresh_fails cfg r \<Longrightarrow> appId cfg \<noteq> [] \<Longrightarrow> secret cfg \<noteq> [] \<Longrightarrow>
   \<exists>e. getAccessToken_resume cache now r = (Inl e, cache)"
  by (auto simp: refresh_fails_def getAccessToken_resume_def split: http_result.splits option.splits)

text \<open>
  C7. When the refresh fails (application id or secret not configured, request rejected,
  error code reported by the provider, access token absent or empty), the call throws and
  the cache is what it was before the call. Whenever the call throws, the cache is
  unchanged; and when a refresh succeeds, the token returned is not empty and is the one
  stored, with its expiry.
\<close>

theorem refresh_atomic:
  fixes cfg cache now r now'
  defines "res \<equiv> getAccessToken cfg cache now r now'"
  shows "(\<not> fresh cache now \<and> refresh_fails cfg r \<longrightarrow>
            (\<exists>e. outcome res = Inl e) \<and> cache_after res = cache)
       \<and> (\<forall>e. outcome res = Inl e \<longrightarrow> cache_after res = cache)
       \<and> (\<forall>t. \<not> fresh cache now \<and> outcome res = Inr t \<longrightarrow>
            t \<noteq> [] \<and> (\<exists>d. r = Resolved d \<and> access_token d = Some t \<and>
              cache_after res = Some \<lparr> token = t,
                expireAt = now' + (case expires_in d of None \<Rightarrow> 7200 | Some n \<Rightarrow> n) * 1000 \<rparr>))"
proof (intro conjI allI impI)
  assume a: "\<not> fresh cache now \<and> refresh_fails cfg r"
  show "\<exists>e. outcome res = Inl e"
  proof (cases "appId cfg = [] \<or> secret cfg = []")
    case True
    with a show ?thesis by (simp add: res_def getAccessToken_def sync_stale)
  next
    case False
    with a obtain e where "getAccessToken_resume cache now' r = (Inl e, cache)"
      using resume_fails [of cfg r cache now'] by auto
    with a False show ?thesis by (simp add: res_def getAccessToken_def sync_stale)
  qed
  show "cache_after res = cache"
  proof (cases "appId cfg = [] \<or> secret cfg = []")
    case True
    with a show ?thesis by (simp add: res_def getAccessToken_def sync_stale)
  next
    case False
    with a obtain e where "getAccessToken_resume cache now' r = (Inl e, cache)"
      using resume_fails [of cfg r cache now'] by auto
    with a False show ?thesis by (simp add: res_def getAccessToken_def sync_stale)
  qed
next
  fix e
  assume "outcome res = Inl e"
  then show "cache_after res = cache"
    by (auto simp: res_def getAccessToken_def split: sync_outcome.splits prod.splits
          dest: resume_failure_keeps_cache)
next
  fix t
  assume a: "\<not> fresh cache now \<and> outcome res = Inr t"
  then have "getAccessToken_resume cache now' r = (Inr t, cache_after res)"
    by (auto simp: res_def getAccessToken_def sync_stale split: if_splits prod.splits)
  from resume_success [OF this]
  show "t \<noteq> []"
    and "\<exists>d. r = Resolved d \<and> access_token d = Some t \<and>
              cache_after res = Some \<lparr> token = t,
                expireAt = now' + (case expires_in d of None \<Rightarrow> 7200 | Some n \<Rightarrow> n) * 1000 \<rparr>"
    by auto
qed

theorem refresh_atomic_witness:
  "(let cfg = \<lparr> appId = js ''wx1'', secret = js ''s3cret'' \<rparr>;
        cache = Some \<lparr> token = js ''old'', expireAt = 1000 \<rparr>;
        r = Resolved \<lparr> access_token = None, expires_in = None, errcode = Some 40013,
                        errmsg = Some (js ''invalid appid'') \<rparr>;
        res = getAccessToken cfg cache 5000 r 5200
    in \<not> fresh cache 5000 \<and> refresh_fails cfg r
       \<and> outcome res = Inl (ProviderMessage (js ''invalid appid'')) \<and> cache_after res = cache)
   \<and> (let cfg = \<lparr> appId = js ''wx1'', secret = js ''s3cret'' \<rparr>;
          r = Resolved \<lparr> access_token = Some (js ''tok''), expires_in = None, errcode = Some 0,
                          errmsg = None \<rparr>;
          res = getAccessToken cfg None 5000 r 5200
      in \<not> fresh None 5000 \<and> outcome res = Inr (js ''tok'')
         \<and> cache_after res = Some \<lparr> token = js ''tok'', expireAt = 7205200 \<rparr>)"
  using refresh_atomic [where cache = "Some \<lparr> token = js ''old'', expireAt = 1000 \<rparr>"
          and now = 5000 and cfg = "\<lparr> appId = js ''wx1'', secret = js ''s3cret'' \<rparr>"
          and r = "Resolved \<lparr> access_token = None, expires_in = None, errcode = Some 40013,
                        errmsg = Some (js ''invalid appid'') \<rparr>" and now' = 5200]
        refresh_atomic [where cache = None and now = 5000
          and cfg = "\<lparr> appId = js ''wx1'', secret = js ''s3cret'' \<rparr>"
          and r = "Resolved \<lparr> access_token = Some (js ''tok''), expires_in = None,
                        errcode = Some 0, errmsg = None \<rparr>" and now' = 5200]
  by (simp add: Let_def fresh_def refresh_fails_def js_def getAccessToken_def
        getAccessToken_sync_def getAccessToken_resume_def)




section \<open>Properties of concurrent callers\<close>

lemma run_Cons: "run cfg w (e # evs) = run cfg (step cfg w e) evs"
  by (simp add: run_def)

lemma step_Call_stale:
  assumes "\<not> fresh (cachedAccessToken w) now" and "appId cfg \<noteq> []" and "secret cfg \<noteq> []"
  shows "step cfg w (Call c now) = w\<lparr> waiting := waiting w @ [c], requests := Suc (requests w) \<rparr>"
  using assms by (simp add: sync_stale)

text \<open>
  C1, as the code has it. \<open>getAccessToken\<close> keeps no record of a refresh in flight:
  with the application id and secret configured, every caller that enters while the
  cached credential is absent or within 60 seconds of its expiry sends its own request.
  \<open>N\<close> callers that enter before any request settles send \<open>N\<close> requests and all
  wait, each for its own; and a waiting caller finishes with the outcome of its own
  request.
\<close>

theorem concurrent_callers_each_refresh:
  assumes "appId cfg \<noteq> []" and "secret cfg \<noteq> []"
    and "\<forall>(c, now) \<in> set calls. \<not> fresh (cachedAccessToken w) now"
  shows "requests (run cfg w (map (\<lambda>(c, now). Call c now) calls)) = requests w + length calls
       \<and> waiting (run cfg w (map (\<lambda>(c, now). Call c now) calls)) = waiting w @ map fst calls
       \<and> cachedAccessToken (run cfg w (map (\<lambda>(c, now). Call c now) calls)) = cachedAccessToken w
       \<and> (\<forall>c t r. c \<in> set (waiting w) \<longrightarrow>
            finished (step cfg w (Settle c t r))
              = finished w @ [(c, fst (getAccessToken_resume (cachedAccessToken w) t r))])"
proof -
  have "run cfg w (map (\<lambda>(c, now). Call c now) calls)
          = w\<lparr> waiting := waiting w @ map fst calls, requests := requests w + length calls \<rparr>"
    using assms(3)
  proof (induction calls arbitrary: w)
    case Nil
    then show ?case by (simp add: run_def)
  next
    case (Cons a calls)
    obtain c now where a: "a = (c, now)" by (cases a)
    let ?w = "w\<lparr> waiting := waiting w @ [c], requests := Suc (requests w) \<rparr>"
    from Cons.prems have "\<not> fresh (cachedAccessToken w) now" by (simp add: a)
    then have s: "step cfg w (Call c now) = ?w"
      using assms(1,2) by (rule step_Call_stale)
    have "run cfg w (map (\<lambda>(c, now). Call c now) (a # calls))
            = run cfg ?w (map (\<lambda>(c, now). Call c now) calls)"
      by (simp add: a run_Cons s del: step.simps)
    also have "\<dots> = ?w\<lparr> waiting := waiting ?w @ map fst calls,
                         requests := requests ?w + length calls \<rparr>"
      using Cons.prems by (intro Cons.IH) (auto simp: a)
    finally show ?case by (simp add: a)
  qed
  moreover have "\<forall>c t r. c \<in> set (waiting w) \<longrightarrow>
            finished (step cfg w (Settle c t r))
              = finished w @ [(c, fst (getAccessToken_resume (cachedAccessToken w) t r))]"
    by (simp split: prod.splits)
  ultimately show ?thesis by simp
qed

theorem concurrent_callers_each_refresh_witness:
  "requests (run \<lparr> appId = js ''wx1'', secret = js ''s3cret'' \<rparr>
      \<lparr> cachedAccessToken = Some \<lparr> token = js ''old'', expireAt = 1000 \<rparr>, waiting = [7],
        requests = 1, finished = [] \<rparr>
      [Call 1 5000, Call 2 5001]) = 3
   \<and> waiting (run \<lparr> appId = js ''wx1'', secret = js ''s3cret'' \<rparr>
      \<lparr> cachedAccessToken = Some \<lparr> token = js ''old'', expireAt = 1000 \<rparr>, waiting = [7],
        requests = 1, finished = [] \<rparr>
      [Call 1 5000, Call 2 5001]) = [7, 1, 2]
   \<and> finished (step \<lparr> appId = js ''wx1'', secret = js ''s3cret'' \<rparr>
      \<lparr> cachedAccessToken = Some \<lparr> token = js ''old'', expireAt = 1000 \<rparr>, waiting = [7],
        requests = 1, finished = [] \<rparr>
      (Settle 7 5100 (Resolved \<lparr> access_token = Some (js ''t7''), expires_in = Some 7200,
                                 errcode = None, errmsg = None \<rparr>)))
     = [(7, Inr (js ''t7''))]"
proof -
  let ?cfg = "\<lparr> appId = js ''wx1'', secret = js ''s3cret'' \<rparr>"
  let ?w = "\<lparr> cachedAccessToken = Some \<lparr> token = js ''old'', expireAt = 1000 \<rparr>, waiting = [7],
        requests = 1, finished = [] \<rparr>"
  have c: "appId ?cfg \<noteq> []" "secret ?cfg \<noteq> []"
    by (simp_all add: js_def)
  have s: "\<forall>(c, now) \<in> set [(1, 5000), (2, 5001)]. \<not> fresh (cachedAccessToken ?w) now"
    by (simp add: fresh_def)
  have t: "fst (getAccessToken_resume (cachedAccessToken ?w) 5100
             (Resolved \<lparr> access_token = Some (js ''t7''), expires_in = Some 7200,
                          errcode = None, errmsg = None \<rparr>)) = Inr (js ''t7'')"
    by (simp add: getAccessToken_resume_def js_def)
  have "7 \<in> set (waiting ?w)"
    by simp
  with concurrent_callers_each_refresh [OF c s] t show ?thesis
    by simp
qed

text \<open>
  The claim of C1 that concurrent callers share one refresh fails: two callers that find
  the cached credential expired before either request settles send two requests, and
  each returns the token of its own answer.
\<close>

theorem single_flight_counterexample:
  "requests (run \<lparr> appId = js ''wx1'', secret = js ''s3cret'' \<rparr>
      (start (Some \<lparr> token = js ''old'', expireAt = 1000 \<rparr>))
      [Call 1 5000, Call 2 5000]) = 2
   \<and> finished (run \<lparr> appId = js ''wx1'', secret = js ''s3cret'' \<rparr>
      (start (Some \<lparr> token = js ''old'', expireAt = 1000 \<rparr>))
      [Call 1 5000, Call 2 5000,
       Settle 1 5100 (Resolved \<lparr> access_token = Some (js ''t1''), expires_in = Some 7200,
                                 errcode = None, errmsg = None \<rparr>),
       Settle 2 5200 (Resolved \<lparr> access_token = Some (js ''t2''), expires_in = Some 7200,
                                 errcode = None, errmsg = None \<rparr>)])
     = [(1, Inr (js ''t1'')), (2, Inr (js ''t2''))]"
  by (simp add: run_def start_def js_def getAccessToken_sync_def getAccessToken_resume_def)

section \<open>Properties of the completion client\<close>

lemma dropWhile_all: "(\<forall>x \<in> set (dropWhile P s). P x) \<longleftrightarrow> (\<forall>x \<in> set s. P x)"
  by (induction s) auto

lemma trim_Nil_iff: "trim s = [] \<longleftrightarrow> (\<forall>c \<in> set s. is_space c)"
  by (simp add: trim_def dropWhile_eq_Nil_conv dropWhile_all)

lemma set_trim: "set (trim s) \<subseteq> set s"
proof -
  have "set (trim s) \<subseteq> set (dropWhile is_space s)"
    unfolding trim_def using set_dropWhileD [of _ is_space "rev (dropWhile is_space s)"] by auto
  then show ?thesis using set_dropWhileD [of _ is_space s] by auto
qed

text \<open>
  C8. When the request has succeeded, \<open>callDeepSeek\<close> returns the trimmed content of
  the first choice's message, and what it returns is never empty; when that content is
  absent, empty or made of white space only, the call throws the empty-content error.
\<close>

theorem callDeepSeek_nonempty:
  "(\<forall>t. callDeepSeek (Completed d) = Inr t \<longrightarrow>
       t \<noteq> [] \<and> (\<exists>c. first_content d = Some c \<and> t = trim c))
   \<and> (first_content d = None \<or> (\<exists>c. first_content d = Some c \<and> (\<forall>x \<in> set c. is_space x))
        \<longrightarrow> callDeepSeek (Completed d) = Inl EmptyContent)"
  by (auto simp: callDeepSeek_def Let_def trim_Nil_iff split: option.splits if_splits)

theorem callDeepSeek_nonempty_witness:
  "callDeepSeek (Completed \<lparr> choices = Some [\<lparr> message = Some \<lparr> content = Some (js '' hi  '') \<rparr> \<rparr>] \<rparr>)
     = Inr (js ''hi'')
   \<and> js ''hi'' = trim (js '' hi  '')
   \<and> callDeepSeek (Completed \<lparr> choices = Some [\<lparr> message = Some \<lparr> content = Some (js ''   '') \<rparr> \<rparr>] \<rparr>)
     = Inl EmptyContent"
proof -
  let ?d1 = "\<lparr> choices = Some [\<lparr> message = Some \<lparr> content = Some (js '' hi  '') \<rparr> \<rparr>] \<rparr>"
  let ?d2 = "\<lparr> choices = Some [\<lparr> message = Some \<lparr> content = Some (js ''   '') \<rparr> \<rparr>] \<rparr>"
  have c1: "first_content ?d1 = Some (js '' hi  '')" and c2: "first_content ?d2 = Some (js ''   '')"
    by (simp_all add: first_content_def)
  have r1: "callDeepSeek (Completed ?d1) = Inr (js ''hi'')"
    by (simp add: callDeepSeek_def first_content_def trim_def is_space_def js_def)
  with callDeepSeek_nonempty [where d = ?d1]
  have "\<exists>c. first_content ?d1 = Some c \<and> js ''hi'' = trim c"
    by blast
  then have t1: "js ''hi'' = trim (js '' hi  '')"
    by (simp add: c1)
  have "\<forall>x \<in> set (js ''   ''). is_space x"
    by (simp add: js_def is_space_def)
  with c2 callDeepSeek_nonempty [where d = ?d2]
  have r2: "callDeepSeek (Completed ?d2) = Inl EmptyContent"
    by blast
  from r1 t1 r2 show ?thesis by blast
qed

section \<open>Properties of goal decomposition\<close>

lemma split_lines_single: "0x0A \<notin> set l \<Longrightarrow> split_lines l = [l]"
  by (induction l rule: split_lines.induct) auto

text \<open>
  C10. Blank lines are dropped before the enumeration markers are stripped. So no step
  that is returned starts with a digit, a dot, a dash, a closing parenthesis or a space;
  and a line that is not blank and is made of such characters only, such as \<open>1.\<close>,
  passes the filter and is returned as the empty string.
\<close>

theorem split_steps_markers:
  "(\<forall>s \<in> set (split_steps t). case s of [] \<Rightarrow> True | c # _ \<Rightarrow> \<not> marker c)
   \<and> split_steps (js ''1.'') = [[]]
   \<and> (0x0A \<notin> set l \<and> trim l \<noteq> [] \<and> (\<forall>c \<in> set l. marker c) \<longrightarrow> split_steps l = [[]])"
proof (intro conjI ballI impI)
  fix s assume "s \<in> set (split_steps t)"
  then obtain l where "dropWhile marker l = s" by (auto simp: split_steps_def)
  then show "case s of [] \<Rightarrow> True | c # _ \<Rightarrow> \<not> marker c"
    by (cases s) (simp_all add: dropWhile_eq_Cons_conv)
next
  show "split_steps (js ''1.'') = [[]]"
    by (simp add: split_steps_def js_def trim_def marker_def is_space_def)
next
  assume a: "0x0A \<notin> set l \<and> trim l \<noteq> [] \<and> (\<forall>c \<in> set l. marker c)"
  then have "\<forall>c \<in> set (trim l). marker c" using set_trim [of l] by auto
  then have "dropWhile marker (trim l) = []" by (simp add: dropWhile_eq_Nil_conv)
  with a show "split_steps l = [[]]"
    by (simp add: split_steps_def split_lines_single)
qed

theorem split_steps_markers_witness:
  \<open>split_steps (js ''1. ab\<newline>2)c\<newline>3.'') = [js ''ab'', js ''c'', []]
   \<and> split_steps (js ''- 3)'') = [[]]\<close>
  using split_steps_markers [where t = "js ''1. ab\<newline>2)c\<newline>3.''" and l = "js ''- 3)''"]
  by (simp add: split_steps_def js_def trim_def marker_def is_space_def)

section \<open>Properties of the entries' order\<close>

lemma insert_by_key: "insert_by (\<lambda>a b. f a - f b) x xs = insort_key f x xs"
  for f :: "'a \<Rightarrow> int"
  by (induction xs) auto

lemma array_sort_key: "array_sort (\<lambda>a b. f a - f b) xs = sort_key f xs"
  for f :: "'a \<Rightarrow> int"
  by (induction xs) (simp_all add: array_sort_def insert_by_key)

lemma array_sort_entries: "array_sort compare_entries es = sort_key timestamp_or_0 es"
proof -
  have "compare_entries = (\<lambda>a b. timestamp_or_0 a - timestamp_or_0 b)"
    by (simp add: fun_eq_iff compare_entries_def)
  then show ?thesis using array_sort_key [of timestamp_or_0 es] by simp
qed

lemma map_snd_enumerate: "map (\<lambda>p. g (snd p)) (enumerate n xs) = map g xs"
  by (induction xs arbitrary: n) auto

lemma map_fst_enumerate:
  "map (\<lambda>p. Suc (fst p)) (enumerate n xs) = [Suc n ..< Suc (n + length xs)]"
  by (induction xs arbitrary: n) (auto simp: upt_rec)

text \<open>
  C9. The entries are put in ascending order of timestamp before they are serialised:
  the key of the order is the caller's timestamp when the entry has one, and zero when
  it has none. The sorted list holds the same entries, and entries of equal timestamp
  keep their order in the input. The payload lists them in that order, numbered from 1.
  Entries with timestamps 5, 1, 5 are serialised as the second, then the first, then
  the third.
\<close>

theorem diary_entries_order:
  "sorted (map timestamp_or_0 (array_sort compare_entries es))
   \<and> mset (array_sort compare_entries es) = mset es
   \<and> (\<forall>k. filter (\<lambda>e. timestamp_or_0 e = k) (array_sort compare_entries es)
            = filter (\<lambda>e. timestamp_or_0 e = k) es)
   \<and> timestamp_or_0 (e\<lparr> timestamp := None \<rparr>) = 0
   \<and> (\<forall>t. timestamp e = Some t \<longrightarrow> timestamp_or_0 e = t)
   \<and> map item_text (diary_items fmt es) = map text' (array_sort compare_entries es)
   \<and> map index (diary_items fmt es) = [1 ..< Suc (length es)]
   \<and> map item_text (diary_items fmt
        [\<lparr> text' = js ''a'', type' = [], timestamp = Some 5 \<rparr>,
         \<lparr> text' = js ''b'', type' = [], timestamp = Some 1 \<rparr>,
         \<lparr> text' = js ''c'', type' = [], timestamp = Some 5 \<rparr>]) = [js ''b'', js ''a'', js ''c'']"
proof (intro conjI allI)
  show "sorted (map timestamp_or_0 (array_sort compare_entries es))"
    by (simp add: array_sort_entries)
  show "mset (array_sort compare_entries es) = mset es"
    by (simp add: array_sort_entries)
  show "filter (\<lambda>e. timestamp_or_0 e = k) (array_sort compare_entries es)
            = filter (\<lambda>e. timestamp_or_0 e = k) es" for k
    by (simp add: array_sort_entries sort_key_stable)
  show "timestamp_or_0 (e\<lparr> timestamp := None \<rparr>) = 0"
    by (simp add: timestamp_or_0_def)
  show "timestamp e = Some t \<longrightarrow> timestamp_or_0 e = t" for t
    by (simp add: timestamp_or_0_def)
  show "map item_text (diary_items fmt es) = map text' (array_sort compare_entries es)"
    by (simp add: diary_items_def split_def comp_def map_snd_enumerate)
  show "map index (diary_items fmt es) = [1 ..< Suc (length es)]"
    by (simp add: diary_items_def split_def comp_def map_fst_enumerate array_sort_entries)
  show "map item_text (diary_items fmt
        [\<lparr> text' = js ''a'', type' = [], timestamp = Some 5 \<rparr>,
         \<lparr> text' = js ''b'', type' = [], timestamp = Some 1 \<rparr>,
         \<lparr> text' = js ''c'', type' = [], timestamp = Some 5 \<rparr>]) = [js ''b'', js ''a'', js ''c'']"
    by (simp add: diary_items_def array_sort_def compare_entries_def timestamp_or_0_def)
qed

theorem diary_entries_order_witness:
  "timestamp_or_0 \<lparr> text' = js ''x'', type' = [], timestamp = Some 9 \<rparr> = 9
   \<and> sorted (map timestamp_or_0 (array_sort compare_entries
        [\<lparr> text' = js ''x'', type' = [], timestamp = Some 9 \<rparr>,
         \<lparr> text' = js ''y'', type' = [], timestamp = Some 2 \<rparr>]))
   \<and> map item_text (diary_items (\<lambda>t. [])
        [\<lparr> text' = js ''x'', type' = [], timestamp = Some 9 \<rparr>,
         \<lparr> text' = js ''y'', type' = [], timestamp = Some 2 \<rparr>]) = [js ''y'', js ''x'']"
proof -
  let ?x = "\<lparr> text' = js ''x'', type' = [], timestamp = Some 9 \<rparr>"
  let ?y = "\<lparr> text' = js ''y'', type' = [], timestamp = Some 2 \<rparr>"
  note order = diary_entries_order [where e = ?x and es = "[?x, ?y]" and fmt = "\<lambda>t. []"]
  have "timestamp ?x = Some 9"
    by simp
  with order have key: "timestamp_or_0 ?x = 9"
    by blast
  from order have srt: "sorted (map timestamp_or_0 (array_sort compare_entries [?x, ?y]))"
    by blast
  from order have "map item_text (diary_items (\<lambda>t. []) [?x, ?y])
                     = map text' (array_sort compare_entries [?x, ?y])"
    by blast
  moreover have "array_sort compare_entries [?x, ?y] = [?y, ?x]"
    by (simp add: array_sort_def compare_entries_def timestamp_or_0_def)
  ultimately have "map item_text (diary_items (\<lambda>t. []) [?x, ?y]) = [js ''y'', js ''x'']"
    by simp
  with key srt show ?thesis by blast
qed

section \<open>Properties of the extraction\<close>

lemma jsonMatch_no_open: "0x7B \<notin> set raw \<Longrightarrow> jsonMatch raw = None"
proof -
  assume "0x7B \<notin> set raw"
  then have "dropWhile (\<lambda>c. c \<noteq> 0x7B) raw = []"
    by (auto simp: dropWhile_eq_Nil_conv)
  then show ?thesis by (simp only: jsonMatch_def list.case)
qed

lemma jsonMatch_no_close: "0x7D \<notin> set raw \<Longrightarrow> jsonMatch raw = None"
proof -
  assume a: "0x7D \<notin> set raw"
  have "0x7D \<notin> set t" if "dropWhile (\<lambda>c. c \<noteq> 0x7B) raw = b # t" for b t
    using a that set_dropWhileD [of "0x7D" "\<lambda>c. c \<noteq> 0x7B" raw] by auto
  then show ?thesis by (auto simp: jsonMatch_def split: list.splits)
qed

lemma extract_diary_no_match:
  "jsonMatch raw = None \<Longrightarrow>
   extract_diary raw = \<lparr> diary = JString raw, keyPoints = JString [], insights = JString [] \<rparr>"
  by (simp add: extract_diary_def or_else_def)

lemma jsonMatch_whole: "jsonMatch (0x7B # xs @ [0x7D]) = Some (0x7B # xs @ [0x7D])"
  by (simp add: jsonMatch_def)

lemma hex_value_digit: "d < 16 \<Longrightarrow> hex_value (hex_digit d) = Some d"
  by (auto simp: hex_value_def hex_digit_def)

lemma hex_digits_value:
  fixes c :: nat
  assumes "c < 65536"
  shows "((c div 4096 mod 16 * 16 + c div 256 mod 16) * 16 + c div 16 mod 16) * 16 + c mod 16 = c"
proof -
  have d2: "c div 256 = c div 16 div 16" and d3: "c div 4096 = c div 16 div 16 div 16"
    by (simp_all add: div_mult2_eq [symmetric])
  have z: "c div 16 div 16 div 16 < 16"
    using assms by (simp add: div_mult2_eq [symmetric])
  have "c = c div 16 * 16 + c mod 16" by simp
  moreover have "c div 16 = c div 16 div 16 * 16 + c div 16 mod 16" by simp
  moreover have "c div 16 div 16 = c div 16 div 16 div 16 * 16 + c div 16 div 16 mod 16" by simp
  ultimately show ?thesis
    unfolding d2 d3 using z by (simp only: mod_less)
qed

lemma hex4_escape:
  assumes "c < 65536"
  shows "hex4 (hex_digit (c div 4096 mod 16)) (hex_digit (c div 256 mod 16))
           (hex_digit (c div 16 mod 16)) (hex_digit (c mod 16)) = Some c"
proof -
  have "hex4 (hex_digit (c div 4096 mod 16)) (hex_digit (c div 256 mod 16))
           (hex_digit (c div 16 mod 16)) (hex_digit (c mod 16))
        = Some (((c div 4096 mod 16 * 16 + c div 256 mod 16) * 16 + c div 16 mod 16) * 16 + c mod 16)"
    unfolding hex4_def by (simp only: hex_value_digit mod_less_divisor zero_less_numeral prod.case option.case)
  then show ?thesis by (simp only: hex_digits_value [OF assms])
qed

lemma lex_unicode_escape:
  "c < 65536 \<Longrightarrow> lex_string (unicode_escape c @ rest) = cons_char c (lex_string rest)"
  unfolding unicode_escape_def
  by (simp only: append_Cons append_Nil lex_string.simps hex4_escape list.case option.case) simp

lemma short_escape_unescape:
  "short_escape c = Some e \<Longrightarrow> e \<noteq> 0x75 \<and> unescape e = Some c"
  by (auto simp: short_escape_def unescape_def split: if_splits)

lemma lex_short_escape:
  "short_escape c = Some e \<Longrightarrow> lex_string (0x5C # e # rest) = cons_char c (lex_string rest)"
  using short_escape_unescape [of c e] by simp

lemma lex_literal:
  "short_escape c = None \<Longrightarrow> \<not> c < 0x20 \<Longrightarrow> lex_string (c # rest) = cons_char c (lex_string rest)"
  by (auto simp: short_escape_def split: if_splits)

lemma surrogate_bounds:
  "lead_surrogate c \<Longrightarrow> c < 65536 \<and> \<not> c < 0x20 \<and> short_escape c = None"
  "trail_surrogate c \<Longrightarrow> c < 65536 \<and> \<not> c < 0x20 \<and> short_escape c = None"
  by (auto simp: lead_surrogate_def trail_surrogate_def short_escape_def)

lemma lex_closing_quote: "lex_string (0x22 # rest) = Some ([], rest)"
  by simp

lemma lex_quote_chars: "lex_string (quote_chars s @ 0x22 # rest) = Some (s, rest)"
proof (induction s rule: quote_chars.induct)
  case 1
  show ?case by simp
next
  case (2 c)
  show ?case
  proof (cases "short_escape c")
    case (Some e)
    then have q: "quote_chars [c] = [0x5C, e]" by simp
    show ?thesis
      unfolding q using lex_short_escape [OF Some, of "0x22 # rest"]
      by (simp add: lex_closing_quote cons_char_def del: lex_string.simps)
  next
    case None
    show ?thesis
    proof (cases "c < 0x20 \<or> lead_surrogate c \<or> trail_surrogate c")
      case True
      then have c: "c < 65536" using surrogate_bounds by auto
      from True None have q: "quote_chars [c] = unicode_escape c" by simp
      show ?thesis
        unfolding q using lex_unicode_escape [OF c, of "0x22 # rest"]
        by (simp add: lex_closing_quote cons_char_def del: lex_string.simps)
    next
      case False
      with None have q: "quote_chars [c] = [c]" by simp
      from False have "\<not> c < 0x20" by simp
      from lex_literal [OF None this, of "0x22 # rest"] show ?thesis
        unfolding q by (simp add: lex_closing_quote cons_char_def del: lex_string.simps)
    qed
  qed
next
  case (3 c d cs)
  show ?case
  proof (cases "short_escape c")
    case (Some e)
    then have q: "quote_chars (c # d # cs) = 0x5C # e # quote_chars (d # cs)" by simp
    from Some have ih: "lex_string (quote_chars (d # cs) @ 0x22 # rest) = Some (d # cs, rest)"
      using "3.IH" by blast
    show ?thesis
      unfolding q using lex_short_escape [OF Some, of "quote_chars (d # cs) @ 0x22 # rest"] ih
      by (simp add: cons_char_def del: lex_string.simps quote_chars.simps)
  next
    case None
    show ?thesis
    proof (cases "lead_surrogate c \<and> trail_surrogate d")
      case True
      with None have q: "quote_chars (c # d # cs) = c # d # quote_chars cs" by simp
      from None True have ih: "lex_string (quote_chars cs @ 0x22 # rest) = Some (cs, rest)"
        using "3.IH" by blast
      from True have c: "\<not> c < 0x20" and d: "\<not> d < 0x20" and sd: "short_escape d = None"
        using surrogate_bounds [of c] surrogate_bounds [of d] by auto
      have "lex_string (c # d # quote_chars cs @ 0x22 # rest)
              = cons_char c (lex_string (d # quote_chars cs @ 0x22 # rest))"
        by (rule lex_literal [OF None c])
      also have "\<dots> = cons_char c (cons_char d (lex_string (quote_chars cs @ 0x22 # rest)))"
        by (simp only: lex_literal [OF sd d])
      finally show ?thesis
        unfolding q by (simp add: ih cons_char_def del: lex_string.simps quote_chars.simps)
    next
      case nopair: False
      show ?thesis
      proof (cases "c < 0x20 \<or> lead_surrogate c \<or> trail_surrogate c")
        case True
        then have c: "c < 65536" using surrogate_bounds by auto
        from None nopair True have q: "quote_chars (c # d # cs) = unicode_escape c @ quote_chars (d # cs)"
          by auto
        from None nopair True have ih: "lex_string (quote_chars (d # cs) @ 0x22 # rest) = Some (d # cs, rest)"
          using "3.IH" by blast
        show ?thesis
          unfolding q using lex_unicode_escape [OF c, of "quote_chars (d # cs) @ 0x22 # rest"] ih
          by (simp add: cons_char_def del: lex_string.simps quote_chars.simps)
      next
        case False
        with None nopair have q: "quote_chars (c # d # cs) = c # quote_chars (d # cs)" by auto
        from None nopair False have ih: "lex_string (quote_chars (d # cs) @ 0x22 # rest) = Some (d # cs, rest)"
          using "3.IH" by blast
        from False have "\<not> c < 0x20" by simp
        from lex_literal [OF None this, of "quote_chars (d # cs) @ 0x22 # rest"] ih show ?thesis
          unfolding q by (simp add: cons_char_def del: lex_string.simps quote_chars.simps)
      qed
    qed
  qed
qed


lemma tokenize_quoted:
  "tokenize (QuoteJSONString s @ rest) = cons_token (TValue (JString s)) (tokenize rest)"
  by (simp add: QuoteJSONString_def json_ws_def lex_quote_chars)

lemma tokenize_punct:
  "tokenize (0x7B # rest) = cons_token TLBrace (tokenize rest)"
  "tokenize (0x7D # rest) = cons_token TRBrace (tokenize rest)"
  "tokenize (0x3A # rest) = cons_token TColon (tokenize rest)"
  "tokenize (0x2C # rest) = cons_token TComma (tokenize rest)"
  by (simp_all add: json_ws_def)

lemma tokenize_stringify_diary:
  "tokenize (stringify_diary d k i) =
     Some [TLBrace, TValue (JString (js ''diary'')), TColon, TValue (JString d), TComma,
           TValue (JString (js ''keyPoints'')), TColon, TValue (JString k), TComma,
           TValue (JString (js ''insights'')), TColon, TValue (JString i), TRBrace]"
  by (simp add: stringify_diary_def tokenize_quoted tokenize_punct cons_token_def
        del: tokenize.simps(2))

lemma parse_stringify_diary:
  "JSON_parse (stringify_diary d k i) =
     Some (JObject [(js ''diary'', JString d), (js ''keyPoints'', JString k),
                    (js ''insights'', JString i)])"
  by (simp add: JSON_parse_def tokenize_stringify_diary)


lemma jsonMatch_stringify_diary:
  "jsonMatch (stringify_diary d k i) = Some (stringify_diary d k i)"
proof -
  have "\<exists>xs. stringify_diary d k i = 0x7B # xs @ [0x7D]"
    by (simp add: stringify_diary_def)
  then obtain xs where "stringify_diary d k i = 0x7B # xs @ [0x7D]" ..
  then show ?thesis by (simp only: jsonMatch_whole)
qed

lemma keys_distinct:
  "js ''diary'' \<noteq> js ''keyPoints''" "js ''diary'' \<noteq> js ''insights''"
  "js ''keyPoints'' \<noteq> js ''insights''"
  "js ''keyPoints'' \<noteq> js ''diary''" "js ''insights'' \<noteq> js ''diary''"
  "js ''insights'' \<noteq> js ''keyPoints''"
  by (simp_all add: js_def)

lemma copy_stringified:
  "copy_fields (JObject [(js ''diary'', JString d), (js ''keyPoints'', JString k),
                    (js ''insights'', JString i)])
     \<lparr> diary = JString raw, keyPoints = JString [], insights = JString [] \<rparr>
   = \<lparr> diary = JString (if d = [] then raw else d), keyPoints = JString k, insights = JString i \<rparr>"
  by (auto simp: copy_fields_def get_prop_def keys_distinct Let_def)

lemma stringify_diary_nonempty: "stringify_diary d k i \<noteq> []"
  by (simp add: stringify_diary_def)

lemma extract_stringify_diary:
  "extract_diary (stringify_diary d k i) =
     \<lparr> diary = JString (if d = [] then stringify_diary d k i else d),
       keyPoints = JString k, insights = JString i \<rparr>"
proof -
  let ?raw = "stringify_diary d k i"
  have "extract_diary ?raw =
          \<lparr> diary = or_else (JString (if d = [] then ?raw else d)) (JString ?raw),
            keyPoints = or_else (JString k) (JString []),
            insights = or_else (JString i) (JString []) \<rparr>"
    by (simp add: extract_diary_def jsonMatch_stringify_diary parse_stringify_diary
          copy_stringified Let_def)
  then show ?thesis
    using stringify_diary_nonempty [of d k i] by (auto simp: or_else_def)
qed

text \<open>
  C3. When the model returns exactly \<^verbatim>\<open>{"diary":"x"}\<close>, the extractor returns the diary
  \<open>x\<close> with empty key points and insights. When the raw text contains no opening brace
  or no closing brace, whatever else it contains, headings included, the extractor
  returns the whole raw text as the diary, with empty key points and insights.
\<close>

theorem diary_scenarios:
  \<open>extract_diary (js ''{"diary":"x"}'')
     = \<lparr> diary = JString (js ''x''), keyPoints = JString [], insights = JString [] \<rparr>
   \<and> (0x7B \<notin> set raw \<or> 0x7D \<notin> set raw \<longrightarrow>
        extract_diary raw = \<lparr> diary = JString raw, keyPoints = JString [], insights = JString [] \<rparr>)\<close>
proof (rule conjI)
  have m: \<open>jsonMatch (js ''{"diary":"x"}'') = Some (js ''{"diary":"x"}'')\<close>
    by (simp add: jsonMatch_def js_def)
  have p: \<open>JSON_parse (js ''{"diary":"x"}'') = Some (JObject [(js ''diary'', JString (js ''x''))])\<close>
    by (simp add: JSON_parse_def js_def json_ws_def cons_token_def cons_char_def)
  have c: "copy_fields (JObject [(js ''diary'', JString (js ''x''))]) p = p\<lparr> diary := JString (js ''x'') \<rparr>"
    for p
    using keys_distinct by (simp add: copy_fields_def get_prop_def) (simp add: js_def)
  show \<open>extract_diary (js ''{"diary":"x"}'')
     = \<lparr> diary = JString (js ''x''), keyPoints = JString [], insights = JString [] \<rparr>\<close>
    by (simp add: extract_diary_def m p c or_else_def) (simp add: js_def)
next
  show "0x7B \<notin> set raw \<or> 0x7D \<notin> set raw \<longrightarrow>
        extract_diary raw = \<lparr> diary = JString raw, keyPoints = JString [], insights = JString [] \<rparr>"
    using jsonMatch_no_open [of raw] jsonMatch_no_close [of raw] extract_diary_no_match [of raw]
    by blast
qed

theorem diary_scenarios_witness:
  "extract_diary (js ''Today was calm.'')
     = \<lparr> diary = JString (js ''Today was calm.''), keyPoints = JString [], insights = JString [] \<rparr>"
proof -
  have "0x7B \<notin> set (js ''Today was calm.'')"
    by (simp add: js_def)
  with diary_scenarios [where raw = "js ''Today was calm.''"] show ?thesis
    by blast
qed

text \<open>
  C4, as the code has it. Extraction on the serialisation of an object of the diary
  shape gives back the key points and the insights, empty or not, and the diary when it
  is not empty. An empty diary is not given back: the diary returned is then the whole
  serialised text.
\<close>

theorem extract_stringify_roundtrip:
  "keyPoints (extract_diary (stringify_diary d k i)) = JString k
   \<and> insights (extract_diary (stringify_diary d k i)) = JString i
   \<and> (d \<noteq> [] \<longrightarrow>
        extract_diary (stringify_diary d k i)
          = \<lparr> diary = JString d, keyPoints = JString k, insights = JString i \<rparr>)
   \<and> (d = [] \<longrightarrow> diary (extract_diary (stringify_diary d k i)) = JString (stringify_diary d k i))"
  by (simp add: extract_stringify_diary)

theorem extract_stringify_roundtrip_witness:
  \<open>stringify_diary (js ''d"1'') [] (js ''ok'')
     = js ''{"diary":"d'' @ [0x5C, 0x22] @ js ''1","keyPoints":"","insights":"ok"}''
   \<and> extract_diary (js ''{"diary":"d'' @ [0x5C, 0x22] @ js ''1","keyPoints":"","insights":"ok"}'')
       = \<lparr> diary = JString (js ''d"1''), keyPoints = JString [], insights = JString (js ''ok'') \<rparr>
   \<and> diary (extract_diary (stringify_diary [] [] (js ''ok'')))
       = JString (stringify_diary [] [] (js ''ok''))\<close>
proof -
  have s: \<open>stringify_diary (js ''d"1'') [] (js ''ok'')
             = js ''{"diary":"d'' @ [0x5C, 0x22] @ js ''1","keyPoints":"","insights":"ok"}''\<close>
    by (simp add: stringify_diary_def QuoteJSONString_def short_escape_def lead_surrogate_def
          trail_surrogate_def js_def)
  have \<open>js ''d"1'' \<noteq> []\<close>
    by (simp add: js_def)
  with extract_stringify_roundtrip [where d = \<open>js ''d"1''\<close> and k = "[]" and i = "js ''ok''"]
  have \<open>extract_diary (stringify_diary (js ''d"1'') [] (js ''ok''))
          = \<lparr> diary = JString (js ''d"1''), keyPoints = JString [], insights = JString (js ''ok'') \<rparr>\<close>
    by blast
  moreover from extract_stringify_roundtrip [where d = "[]" and k = "[]" and i = "js ''ok''"]
  have "diary (extract_diary (stringify_diary [] [] (js ''ok'')))
          = JString (stringify_diary [] [] (js ''ok''))"
    by blast
  ultimately show ?thesis using s by simp
qed

text \<open>
  The claim of C4 fails on the object whose three fields are empty strings: the diary
  returned is not the empty string but the serialised text.
\<close>

theorem empty_diary_roundtrip_counterexample:
  \<open>stringify_diary [] [] [] = js ''{"diary":"","keyPoints":"","insights":""}''
   \<and> diary (extract_diary (js ''{"diary":"","keyPoints":"","insights":""}''))
       = JString (js ''{"diary":"","keyPoints":"","insights":""}'')
   \<and> diary (extract_diary (js ''{"diary":"","keyPoints":"","insights":""}'')) \<noteq> JString []\<close>
proof -
  have s: \<open>stringify_diary [] [] [] = js ''{"diary":"","keyPoints":"","insights":""}''\<close>
    by (simp add: stringify_diary_def QuoteJSONString_def short_escape_def lead_surrogate_def
          trail_surrogate_def js_def)
  have \<open>diary (extract_diary (stringify_diary [] [] [])) = JString (stringify_diary [] [] [])\<close>
    by (simp add: extract_stringify_diary)
  then have \<open>diary (extract_diary (js ''{"diary":"","keyPoints":"","insights":""}''))
       = JString (js ''{"diary":"","keyPoints":"","insights":""}'')\<close>
    by (simp only: s)
  moreover have \<open>js ''{"diary":"","keyPoints":"","insights":""}'' \<noteq> []\<close>
    by (simp add: js_def)
  ultimately show ?thesis using s by simp
qed

subsection \<open>A text that starts with a brace parses to an object\<close>

lemma reduce_object_bottom:
  assumes "reduce v fs = Some (e', fs')" and "fs \<noteq> []" and "\<forall>es. last fs \<noteq> ArrayFrame es"
  shows "fs' \<noteq> [] \<and> (\<forall>es. last fs' \<noteq> ArrayFrame es) \<and> (\<forall>w. e' \<noteq> ExpEnd w)"
  using assms by (cases "(v, fs)" rule: reduce.cases) (auto split: if_splits)

lemma close_object_bottom:
  assumes "close_object fs = Some (e', fs')" and "fs \<noteq> []" and "\<forall>es. last fs \<noteq> ArrayFrame es"
  shows "(fs' \<noteq> [] \<and> (\<forall>es. last fs' \<noteq> ArrayFrame es) \<and> (\<forall>w. e' \<noteq> ExpEnd w))
         \<or> (fs' = [] \<and> (\<exists>ms. e' = ExpEnd (JObject ms)))"
proof (cases fs rule: close_object.cases)
  case (1 ms rest)
  show ?thesis
  proof (cases rest)
    case Nil
    with 1 assms show ?thesis by auto
  next
    case (Cons a list)
    with 1 assms have "reduce (JObject (rev ms)) rest = Some (e', fs')" "rest \<noteq> []"
      "\<forall>es. last rest \<noteq> ArrayFrame es"
      by auto
    from reduce_object_bottom [OF this] show ?thesis by blast
  qed
qed (use assms in auto)

lemma close_array_bottom:
  assumes "close_array fs = Some (e', fs')" and "fs \<noteq> []" and "\<forall>es. last fs \<noteq> ArrayFrame es"
  shows "fs' \<noteq> [] \<and> (\<forall>es. last fs' \<noteq> ArrayFrame es) \<and> (\<forall>w. e' \<noteq> ExpEnd w)"
proof (cases fs rule: close_array.cases)
  case (1 es rest)
  with assms have "rest \<noteq> []" by auto
  with 1 assms have "reduce (JArray (rev es)) rest = Some (e', fs')" "rest \<noteq> []"
      "\<forall>es. last rest \<noteq> ArrayFrame es"
    by auto
  from reduce_object_bottom [OF this] show ?thesis by blast
qed (use assms in auto)

lemma begin_member_bottom:
  assumes "begin_member k fs = Some (e', fs')" and "fs \<noteq> []" and "\<forall>es. last fs \<noteq> ArrayFrame es"
  shows "fs' \<noteq> [] \<and> (\<forall>es. last fs' \<noteq> ArrayFrame es) \<and> (\<forall>w. e' \<noteq> ExpEnd w)"
  using assms by (cases "(k, fs)" rule: begin_member.cases) (auto split: if_splits)

lemma begin_value_bottom:
  assumes "begin_value t fs = Some (e', fs')" and "fs \<noteq> []" and "\<forall>es. last fs \<noteq> ArrayFrame es"
  shows "fs' \<noteq> [] \<and> (\<forall>es. last fs' \<noteq> ArrayFrame es) \<and> (\<forall>w. e' \<noteq> ExpEnd w)"
  using assms by (cases "(t, fs)" rule: begin_value.cases) (auto dest: reduce_object_bottom)

lemma pda_step_bottom:
  assumes "pda_step (e, fs) t = Some (e', fs')" and "fs \<noteq> []" and "\<forall>es. last fs \<noteq> ArrayFrame es"
  shows "(fs' \<noteq> [] \<and> (\<forall>es. last fs' \<noteq> ArrayFrame es) \<and> (\<forall>w. e' \<noteq> ExpEnd w))
         \<or> (fs' = [] \<and> (\<exists>ms. e' = ExpEnd (JObject ms)))"
proof (cases e)
  case ExpValue
  with assms begin_value_bottom [of t fs e' fs'] show ?thesis by simp
next
  case ExpValueOrEnd
  with assms begin_value_bottom [of t fs e' fs'] close_array_bottom [of fs e' fs'] show ?thesis
    by (simp split: if_splits)
next
  case ExpKeyOrEnd
  with assms close_object_bottom [of fs e' fs'] begin_member_bottom [of _ fs e' fs'] show ?thesis
    by (auto split: jtoken.splits json.splits)
next
  case ExpKey
  with assms begin_member_bottom [of _ fs e' fs'] show ?thesis
    by (auto split: jtoken.splits json.splits)
next
  case ExpColon
  with assms show ?thesis by (auto split: if_splits)
next
  case ExpCommaOrEnd
  with assms close_object_bottom [of fs e' fs'] close_array_bottom [of fs e' fs'] show ?thesis
    by (auto split: jtoken.splits list.splits frame.splits)
next
  case (ExpEnd x7)
  with assms show ?thesis by simp
qed

lemma pda_run_finished: "pda_run (ExpEnd w, fs) ts = Some v \<Longrightarrow> v = w"
  by (cases ts) (auto split: list.splits)

lemma pda_run_object:
  "pda_run (e, fs) ts = Some v \<Longrightarrow> fs \<noteq> [] \<Longrightarrow> \<forall>es. last fs \<noteq> ArrayFrame es \<Longrightarrow>
   \<exists>ms. v = JObject ms"
proof (induction ts arbitrary: e fs)
  case Nil
  then show ?case by (auto split: expect.splits list.splits)
next
  case (Cons t ts)
  from Cons.prems(1) obtain e' fs' where s: "pda_step (e, fs) t = Some (e', fs')"
    and r: "pda_run (e', fs') ts = Some v"
    by (auto split: option.splits)
  from pda_step_bottom [OF s Cons.prems(2,3)] show ?case
  proof
    assume "fs' \<noteq> [] \<and> (\<forall>es. last fs' \<noteq> ArrayFrame es) \<and> (\<forall>w. e' \<noteq> ExpEnd w)"
    with Cons.IH [OF r] show ?thesis by blast
  next
    assume "fs' = [] \<and> (\<exists>ms. e' = ExpEnd (JObject ms))"
    with r pda_run_finished show ?thesis by blast
  qed
qed

lemma parse_brace_object:
  assumes "JSON_parse (0x7B # cs) = Some v"
  shows "\<exists>ms. v = JObject ms"
proof -
  from assms obtain ts where t: "tokenize cs = Some ts"
    and "pda_run (ExpValue, []) (TLBrace # ts) = Some v"
    by (auto simp: JSON_parse_def json_ws_def cons_token_def split: option.splits)
  then have "pda_run (ExpKeyOrEnd, [ObjectFrame []]) ts = Some v"
    by simp
  then show ?thesis
    by (rule pda_run_object) simp_all
qed

lemma jsonMatch_brace: "jsonMatch raw = Some m \<Longrightarrow> \<exists>cs. m = 0x7B # cs"
  by (auto simp: jsonMatch_def dropWhile_eq_Cons_conv split: list.splits if_splits)

lemma jsonMatch_parse_object:
  "jsonMatch raw = Some m \<Longrightarrow> JSON_parse m = Some v \<Longrightarrow> \<exists>ms. v = JObject ms"
  using jsonMatch_brace parse_brace_object by blast

subsection \<open>The three ways of the diary extraction\<close>

lemma copy_fields_sel:
  "diary (copy_fields obj p) =
     (case get_prop obj (js ''diary'') of None \<Rightarrow> diary p | Some v \<Rightarrow> if truthy v then v else diary p)"
  "keyPoints (copy_fields obj p) =
     (case get_prop obj (js ''keyPoints'') of None \<Rightarrow> keyPoints p
      | Some v \<Rightarrow> if truthy v then v else keyPoints p)"
  "insights (copy_fields obj p) =
     (case get_prop obj (js ''insights'') of None \<Rightarrow> insights p
      | Some v \<Rightarrow> if truthy v then v else insights p)"
  by (auto simp: copy_fields_def Let_def split: option.splits)

lemma header_fields_sel:
  "diary (header_fields raw p) = (case diaryMatch raw of None \<Rightarrow> diary p | Some g \<Rightarrow> JString (trim g))"
  "keyPoints (header_fields raw p) =
     (case pointsMatch raw of None \<Rightarrow> keyPoints p | Some g \<Rightarrow> JString (trim g))"
  "insights (header_fields raw p) =
     (case insightsMatch raw of None \<Rightarrow> insights p | Some g \<Rightarrow> JString (trim g))"
  by (auto simp: header_fields_def Let_def split: option.splits)

lemma extract_diary_headers:
  assumes "jsonMatch raw = Some m" and "JSON_parse m = None"
  shows "extract_diary raw =
     \<lparr> diary = JString (case diaryMatch raw of None \<Rightarrow> raw
                          | Some g \<Rightarrow> if trim g = [] then raw else trim g),
       keyPoints = JString (case pointsMatch raw of None \<Rightarrow> [] | Some g \<Rightarrow> trim g),
       insights = JString (case insightsMatch raw of None \<Rightarrow> [] | Some g \<Rightarrow> trim g) \<rparr>"
  using assms
  by (auto simp: extract_diary_def Let_def header_fields_sel or_else_def split: option.splits)

lemma extract_diary_parsed:
  assumes "jsonMatch raw = Some m" and "JSON_parse m = Some (JObject ms)"
  shows "extract_diary raw =
     \<lparr> diary = (case get_prop (JObject ms) (js ''diary'') of None \<Rightarrow> JString raw
                 | Some v \<Rightarrow> if truthy v then v else JString raw),
       keyPoints = (case get_prop (JObject ms) (js ''keyPoints'') of None \<Rightarrow> JString []
                 | Some v \<Rightarrow> if truthy v then v else JString []),
       insights = (case get_prop (JObject ms) (js ''insights'') of None \<Rightarrow> JString []
                 | Some v \<Rightarrow> if truthy v then v else JString []) \<rparr>"
  using assms
  by (auto simp: extract_diary_def Let_def copy_fields_sel or_else_def split: option.splits)

lemma extract_diary_cases:
  obtains (plain) "jsonMatch raw = None"
  | (headers) m where "jsonMatch raw = Some m" "JSON_parse m = None"
  | (parsed) m ms where "jsonMatch raw = Some m" "JSON_parse m = Some (JObject ms)"
proof (cases "jsonMatch raw")
  case None
  then show ?thesis by (rule plain)
next
  case (Some m)
  show ?thesis
  proof (cases "JSON_parse m")
    case None
    with Some show ?thesis by (rule headers)
  next
    case (Some v)
    with \<open>jsonMatch raw = Some m\<close> jsonMatch_parse_object obtain ms where "v = JObject ms"
      by blast
    with Some \<open>jsonMatch raw = Some m\<close> show ?thesis by (auto intro: parsed)
  qed
qed

text \<open>
  C2, as the code has it. Extraction is total. The diary route always returns the three
  fields \<open>diary\<close>, \<open>keyPoints\<close> and \<open>insights\<close>; each is a string, unless the
  object that the model's JSON text parsed to carried a truthy value that is not a
  string under that name, which is then returned as it is. The long-horizon report
  returns the record built from the raw text, which has \<open>summary\<close>,
  \<open>psychologicalInsight\<close>, \<open>lifeAdvice\<close> and \<open>metrics\<close>, when the raw text has no
  span from a brace to a brace or that span does not parse; when the span parses, the
  route returns the parsed object as it is.
\<close>

theorem extraction_total:
  fixes raw
  defines "r \<equiv> extract_diary raw"
  shows
  "((\<exists>s. diary r = JString s)
      \<or> (truthy (diary r) \<and> (\<exists>m ms. jsonMatch raw = Some m \<and> JSON_parse m = Some (JObject ms)
            \<and> get_prop (JObject ms) (js ''diary'') = Some (diary r))))
   \<and> ((\<exists>s. keyPoints r = JString s)
      \<or> (truthy (keyPoints r) \<and> (\<exists>m ms. jsonMatch raw = Some m \<and> JSON_parse m = Some (JObject ms)
            \<and> get_prop (JObject ms) (js ''keyPoints'') = Some (keyPoints r))))
   \<and> ((\<exists>s. insights r = JString s)
      \<or> (truthy (insights r) \<and> (\<exists>m ms. jsonMatch raw = Some m \<and> JSON_parse m = Some (JObject ms)
            \<and> get_prop (JObject ms) (js ''insights'') = Some (insights r))))
   \<and> ((\<forall>m. jsonMatch raw = Some m \<longrightarrow> JSON_parse m = None) \<longrightarrow>
          extract_long_term raw = long_term_fallback raw)
   \<and> get_prop (long_term_fallback raw) (js ''summary'') \<noteq> None
   \<and> get_prop (long_term_fallback raw) (js ''psychologicalInsight'') \<noteq> None
   \<and> get_prop (long_term_fallback raw) (js ''lifeAdvice'') \<noteq> None
   \<and> get_prop (long_term_fallback raw) (js ''metrics'') \<noteq> None
   \<and> (\<forall>m v. jsonMatch raw = Some m \<and> JSON_parse m = Some v \<longrightarrow>
          (\<exists>ms. v = JObject ms) \<and> extract_long_term raw = v)"
proof -
  have d: "(\<exists>s. diary r = JString s)
      \<or> (truthy (diary r) \<and> (\<exists>m ms. jsonMatch raw = Some m \<and> JSON_parse m = Some (JObject ms)
            \<and> get_prop (JObject ms) (js ''diary'') = Some (diary r)))"
  proof (cases raw rule: extract_diary_cases)
    case plain
    then show ?thesis by (simp add: r_def extract_diary_no_match)
  next
    case (headers m)
    then show ?thesis by (simp add: r_def extract_diary_headers)
  next
    case (parsed m ms)
    then show ?thesis by (auto simp: r_def extract_diary_parsed split: option.splits)
  qed
  have k: "(\<exists>s. keyPoints r = JString s)
      \<or> (truthy (keyPoints r) \<and> (\<exists>m ms. jsonMatch raw = Some m \<and> JSON_parse m = Some (JObject ms)
            \<and> get_prop (JObject ms) (js ''keyPoints'') = Some (keyPoints r)))"
  proof (cases raw rule: extract_diary_cases)
    case plain
    then show ?thesis by (simp add: r_def extract_diary_no_match)
  next
    case (headers m)
    then show ?thesis by (simp add: r_def extract_diary_headers)
  next
    case (parsed m ms)
    then show ?thesis by (auto simp: r_def extract_diary_parsed split: option.splits)
  qed
  have i: "(\<exists>s. insights r = JString s)
      \<or> (truthy (insights r) \<and> (\<exists>m ms. jsonMatch raw = Some m \<and> JSON_parse m = Some (JObject ms)
            \<and> get_prop (JObject ms) (js ''insights'') = Some (insights r)))"
  proof (cases raw rule: extract_diary_cases)
    case plain
    then show ?thesis by (simp add: r_def extract_diary_no_match)
  next
    case (headers m)
    then show ?thesis by (simp add: r_def extract_diary_headers)
  next
    case (parsed m ms)
    then show ?thesis by (auto simp: r_def extract_diary_parsed split: option.splits)
  qed
  have f: "(\<forall>m. jsonMatch raw = Some m \<longrightarrow> JSON_parse m = None) \<longrightarrow>
          extract_long_term raw = long_term_fallback raw"
    by (auto simp: extract_long_term_def split: option.splits)
  have g: "get_prop (long_term_fallback raw) (js ''summary'') \<noteq> None"
    "get_prop (long_term_fallback raw) (js ''psychologicalInsight'') \<noteq> None"
    "get_prop (long_term_fallback raw) (js ''lifeAdvice'') \<noteq> None"
    "get_prop (long_term_fallback raw) (js ''metrics'') \<noteq> None"
    by (simp_all add: long_term_fallback_def get_prop_def)
  have p: "\<forall>m v. jsonMatch raw = Some m \<and> JSON_parse m = Some v \<longrightarrow>
          (\<exists>ms. v = JObject ms) \<and> extract_long_term raw = v"
  proof (intro allI impI)
    fix m v
    assume a: "jsonMatch raw = Some m \<and> JSON_parse m = Some v"
    then obtain ms where "v = JObject ms" using jsonMatch_parse_object by blast
    with a show "(\<exists>ms. v = JObject ms) \<and> extract_long_term raw = v"
      by (simp add: extract_long_term_def)
  qed
  from d k i f g p show ?thesis by blast
qed

lemma eval_empty_object: \<open>jsonMatch (js ''{}'') = Some (js ''{}'') \<and> JSON_parse (js ''{}'') = Some (JObject [])\<close>
  by (simp add: jsonMatch_def JSON_parse_def js_def json_ws_def cons_token_def)

text \<open>
  The claim of C2 fails on both routes: when the model answers \<^verbatim>\<open>{}\<close>, the long-horizon
  report is the empty object, without \<open>summary\<close> or any other field; and when the model
  answers \<^verbatim>\<open>{"diary":5}\<close>, the diary returned is the number 5, not a string.
\<close>

theorem shape_counterexample:
  \<open>extract_long_term (js ''{}'') = JObject []
   \<and> get_prop (extract_long_term (js ''{}'')) (js ''summary'') = None
   \<and> diary (extract_diary (js ''{"diary":5}'')) = JNumber False 5 0\<close>
proof -
  have l: \<open>extract_long_term (js ''{}'') = JObject []\<close>
    using eval_empty_object by (simp add: extract_long_term_def)
  have m: \<open>jsonMatch (js ''{"diary":5}'') = Some (js ''{"diary":5}'')\<close>
    by (simp add: jsonMatch_def js_def)
  have p: \<open>JSON_parse (js ''{"diary":5}'') = Some (JObject [(js ''diary'', JNumber False 5 0)])\<close>
    by (simp add: JSON_parse_def js_def json_ws_def cons_token_def cons_char_def is_digit_def
          lex_number_def lex_unsigned_def lex_fraction_def lex_exponent_def digits_value_def)
  have d: \<open>diary (extract_diary (js ''{"diary":5}'')) = JNumber False 5 0\<close>
    by (simp add: extract_diary_parsed [OF m p] get_prop_def)
  from l d show ?thesis by (simp add: get_prop_def)
qed

theorem extraction_total_witness:
  \<open>extract_long_term (js ''Sorry, no data.'') = long_term_fallback (js ''Sorry, no data.'')
   \<and> extract_long_term (js ''{"metrics":{}}'') = JObject [(js ''metrics'', JObject [])]\<close>
proof -
  have "jsonMatch (js ''Sorry, no data.'') = None"
    by (simp add: jsonMatch_def js_def)
  with extraction_total [where raw = "js ''Sorry, no data.''"]
  have a: "extract_long_term (js ''Sorry, no data.'') = long_term_fallback (js ''Sorry, no data.'')"
    by simp
  have m: \<open>jsonMatch (js ''{"metrics":{}}'') = Some (js ''{"metrics":{}}'')\<close>
    by (simp add: jsonMatch_def js_def)
  have p: \<open>JSON_parse (js ''{"metrics":{}}'') = Some (JObject [(js ''metrics'', JObject [])])\<close>
    by (simp add: JSON_parse_def js_def json_ws_def cons_token_def cons_char_def)
  from m p extraction_total [where raw = \<open>js ''{"metrics":{}}''\<close>]
  have b: \<open>extract_long_term (js ''{"metrics":{}}'') = JObject [(js ''metrics'', JObject [])]\<close>
    by blast
  from a b show ?thesis by blast
qed

subsection \<open>What the heading expressions capture\<close>








end
